theory Spec2Isabelle
  imports Main "HOL-Library.Sublist"
begin

section \<open>Python string primitives\<close>

text \<open>
  Strings are \<^typ>\<open>string\<close>: lists of characters with code points below 256, so the
  development covers Latin-1 text. On that range the primitives below follow Python's
  \<^verbatim>\<open>str\<close> methods: \<^verbatim>\<open>isspace\<close>, \<^verbatim>\<open>lower\<close>, \<^verbatim>\<open>strip\<close>, \<^verbatim>\<open>split\<close>, \<^verbatim>\<open>in\<close>, \<^verbatim>\<open>count\<close>,
  \<^verbatim>\<open>replace\<close>, \<^verbatim>\<open>join\<close>.
\<close>

definition is_space :: "char \<Rightarrow> bool" where
  "is_space c = ((of_char c :: nat) \<in> {9, 10, 11, 12, 13, 28, 29, 30, 31, 32, 133, 160})"

definition lower_char :: "char \<Rightarrow> char" where
  "lower_char c =
     (let n = (of_char c :: nat)
      in if (65 \<le> n \<and> n \<le> 90) \<or> (192 \<le> n \<and> n \<le> 222 \<and> n \<noteq> 215)
         then char_of (n + 32) else c)"

definition lower :: "string \<Rightarrow> string" where
  "lower s = map lower_char s"

definition strip :: "string \<Rightarrow> string" where
  "strip s = rev (dropWhile is_space (rev (dropWhile is_space s)))"

fun startswith :: "string \<Rightarrow> string \<Rightarrow> bool" where
  "startswith s [] = True"
| "startswith [] (p # ps) = False"
| "startswith (c # cs) (p # ps) = (c = p \<and> startswith cs ps)"

text \<open>\<^verbatim>\<open>sub in s\<close>: \<open>sub\<close> occurs in \<open>s\<close> as a contiguous substring.\<close>

fun contains :: "string \<Rightarrow> string \<Rightarrow> bool" where
  "contains [] sub = (sub = [])"
| "contains (c # cs) sub = (startswith (c # cs) sub \<or> contains cs sub)"

text \<open>
  \<^verbatim>\<open>s.count(sub)\<close>: the number of non-overlapping occurrences, scanning from the left;
  after a match the scan resumes behind it. For the empty \<open>sub\<close> Python answers
  \<open>len(s) + 1\<close>.
\<close>

fun str_count :: "string \<Rightarrow> string \<Rightarrow> nat" where
  "str_count [] sub = (if sub = [] then 1 else 0)"
| "str_count (c # cs) sub =
     (if sub = [] then length (c # cs) + 1
      else if startswith (c # cs) sub then 1 + str_count (drop (length sub) (c # cs)) sub
      else str_count cs sub)"

text \<open>\<^verbatim>\<open>s.split()\<close>: the maximal runs of non-whitespace characters.\<close>

fun split_acc :: "string \<Rightarrow> string \<Rightarrow> string list" where
  "split_acc acc [] = (if acc = [] then [] else [acc])"
| "split_acc acc (c # cs) =
     (if is_space c then (if acc = [] then split_acc [] cs else acc # split_acc [] cs)
      else split_acc (acc @ [c]) cs)"

definition split_ws :: "string \<Rightarrow> string list" where
  "split_ws s = split_acc [] s"

text \<open>
  \<^verbatim>\<open>re.split(r'[.!?]+', text)\<close>: the pieces between maximal runs of terminators. The flag
  says that the previous character was a terminator, so that a run is one delimiter. A text
  that starts or ends with a terminator gives an empty first or last piece.
\<close>

definition is_terminator :: "char \<Rightarrow> bool" where
  "is_terminator c = (c = CHR ''.'' \<or> c = CHR ''!'' \<or> c = CHR ''?'')"

fun re_split_acc :: "bool \<Rightarrow> string \<Rightarrow> string \<Rightarrow> string list" where
  "re_split_acc r acc [] = [acc]"
| "re_split_acc r acc (c # cs) =
     (if is_terminator c
      then (if r then re_split_acc True acc cs else acc # re_split_acc True [] cs)
      else re_split_acc False (acc @ [c]) cs)"

definition re_split :: "string \<Rightarrow> string list" where
  "re_split s = re_split_acc False [] s"

text \<open>
  The source writes the line separator as \<^verbatim>\<open>"\\n"\<close>: the two characters backslash and
  \<open>n\<close>. \<^verbatim>\<open>s.split("\\n")\<close> cuts at each occurrence, from the left, and keeps empty pieces.
\<close>

definition backslash_n :: string where
  "backslash_n = [CHR 0x5C, CHR ''n'']"

fun split_backslash_n :: "string \<Rightarrow> string \<Rightarrow> string list" where
  "split_backslash_n acc (a # b # cs) =
     (if a = CHR 0x5C \<and> b = CHR ''n'' then acc # split_backslash_n [] cs
      else split_backslash_n (acc @ [a]) (b # cs))"
| "split_backslash_n acc cs = [acc @ cs]"

section \<open>The chunker: \<^verbatim>\<open>SimpleTextSearch._create_chunks\<close>\<close>

record chunk =
  text' :: string
  chunk_id :: nat
  page_info :: string

text \<open>
  The inner loop of the overflow branch: the first of the first ten lines of the buffer that
  contains \<^verbatim>\<open>"--- Page"\<close>, stripped; \<^verbatim>\<open>page_match or "Unknown page"\<close> falls back on a missing
  or empty match.
\<close>

definition find_page :: "string \<Rightarrow> string" where
  "find_page current_chunk =
     (case find (\<lambda>line. contains line ''--- Page'') (take 10 (split_backslash_n [] current_chunk)) of
        None \<Rightarrow> ''Unknown page''
      | Some line \<Rightarrow> (if strip line = [] then ''Unknown page'' else strip line))"

text \<open>
  The \<^verbatim>\<open>for sentence in sentences\<close> loop, with its three variables \<open>chunks\<close>,
  \<open>current_chunk\<close> and \<open>chunk_id\<close> passed along. \<open>chunk_size\<close> is a Python integer.
\<close>

fun chunk_loop :: "int \<Rightarrow> string list \<Rightarrow> chunk list \<Rightarrow> string \<Rightarrow> nat \<Rightarrow> chunk list \<times> string \<times> nat" where
  "chunk_loop chunk_size [] chunks current_chunk cid = (chunks, current_chunk, cid)"
| "chunk_loop chunk_size (sentence # sentences) chunks current_chunk cid =
     (if int (length (current_chunk @ sentence)) > chunk_size \<and> current_chunk \<noteq> []
      then chunk_loop chunk_size sentences
             (chunks @ [\<lparr>text' = strip current_chunk, chunk_id = cid,
                         page_info = find_page current_chunk\<rparr>])
             sentence (cid + 1)
      else chunk_loop chunk_size sentences chunks (current_chunk @ sentence @ ''.'') cid)"

definition create_chunks :: "string \<Rightarrow> int \<Rightarrow> chunk list" where
  "create_chunks text chunk_size =
     (case chunk_loop chunk_size (re_split text) [] [] 0 of
        (chunks, current_chunk, cid) \<Rightarrow>
          if strip current_chunk \<noteq> []
          then chunks @ [\<lparr>text' = strip current_chunk, chunk_id = cid, page_info = ''Final chunk''\<rparr>]
          else chunks)"

text \<open>The buffer left when the loop ends; the final chunk is built from it.\<close>

definition final_buffer :: "string \<Rightarrow> int \<Rightarrow> string" where
  "final_buffer text chunk_size =
     (case chunk_loop chunk_size (re_split text) [] [] 0 of (chunks, current_chunk, cid) \<Rightarrow> current_chunk)"

text \<open>
  \<^verbatim>\<open>s.replace(old, new)\<close>: every non-overlapping occurrence of \<open>old\<close>, from the left,
  becomes \<open>new\<close>; for the empty \<open>old\<close> Python puts \<open>new\<close> before every character and at the
  end.
\<close>

fun str_replace :: "string \<Rightarrow> string \<Rightarrow> string \<Rightarrow> string" where
  "str_replace [] old new = (if old = [] then new else [])"
| "str_replace (c # cs) old new =
     (if old = [] then new @ c # str_replace cs old new
      else if startswith (c # cs) old then new @ str_replace (drop (length old) (c # cs)) old new
      else c # str_replace cs old new)"

text \<open>\<^verbatim>\<open>sep.join(parts)\<close>.\<close>

fun join :: "string \<Rightarrow> string list \<Rightarrow> string" where
  "join sep [] = []"
| "join sep [x] = x"
| "join sep (x # y # ys) = x @ sep @ join sep (y # ys)"

text \<open>The decimal numeral of a natural number, as an f-string prints it.\<close>

fun str_nat :: "nat \<Rightarrow> string" where
  "str_nat n = (if n < 10 then [char_of (48 + n)] else str_nat (n div 10) @ [char_of (48 + n mod 10)])"

text \<open>\<^verbatim>\<open>xs[:stop]\<close> for a Python integer \<open>stop\<close>: a negative \<open>stop\<close> counts from the end.\<close>

definition slice_to :: "int \<Rightarrow> 'a list \<Rightarrow> 'a list" where
  "slice_to stop xs =
     (if stop < 0 then take (nat (int (length xs) + stop)) xs else take (nat stop) xs)"

section \<open>The sentences of a chunk\<close>

text \<open>
  The chunk dictionaries keep the buffer's text only. To speak about the sentences a chunk
  was built from, \<open>group_loop\<close> runs the same loop and records, in place of the buffer, the
  pieces that were put into it: each sentence with a flag that says whether the loop appended
  a period to it (the \<^verbatim>\<open>else\<close> branch) or stored it bare (the overflow branch). The buffer is
  the rendering of its pieces, and the branch is decided on that rendering as the source
  decides it on the buffer.
\<close>

type_synonym piece = "string \<times> bool"

fun piece_text :: "piece \<Rightarrow> string" where
  "piece_text (sentence, dotted) = (if dotted then sentence @ ''.'' else sentence)"

definition render :: "piece list \<Rightarrow> string" where
  "render g = concat (map piece_text g)"

fun group_loop :: "int \<Rightarrow> string list \<Rightarrow> piece list list \<Rightarrow> piece list \<Rightarrow> piece list list \<times> piece list" where
  "group_loop chunk_size [] groups current = (groups, current)"
| "group_loop chunk_size (sentence # sentences) groups current =
     (if int (length (render current @ sentence)) > chunk_size \<and> render current \<noteq> []
      then group_loop chunk_size sentences (groups @ [current]) [(sentence, False)]
      else group_loop chunk_size sentences groups (current @ [(sentence, True)]))"

definition chunk_groups :: "string \<Rightarrow> int \<Rightarrow> piece list list" where
  "chunk_groups text chunk_size =
     (case group_loop chunk_size (re_split text) [] [] of
        (groups, current) \<Rightarrow> if strip (render current) \<noteq> [] then groups @ [current] else groups)"

text \<open>
  All the groups the loop built, the leftover one last; \<open>chunk_groups\<close> is this list, or
  this list without its last group when the leftover buffer is blank.
\<close>

definition loop_groups :: "string \<Rightarrow> int \<Rightarrow> piece list list" where
  "loop_groups text chunk_size =
     (case group_loop chunk_size (re_split text) [] [] of (groups, current) \<Rightarrow> groups @ [current])"

text \<open>A group that the overflow branch opened: a bare piece, then dotted pieces only.\<close>

definition opens_bare :: "piece list \<Rightarrow> bool" where
  "opens_bare g = (case g of [] \<Rightarrow> False | p # rest \<Rightarrow> \<not> snd p \<and> list_all snd rest)"

text \<open>
  The size invariant of a group: it is one sentence longer than \<open>chunk_size\<close>, or its buffer
  has at most \<open>chunk_size + 1\<close> characters; and a sentence longer than \<open>chunk_size\<close> is alone
  in its group.
\<close>

definition fits :: "int \<Rightarrow> piece list \<Rightarrow> bool" where
  "fits chunk_size g =
     (((length g = 1 \<and> chunk_size < int (length (fst (hd g))))
        \<or> int (length (render g)) \<le> chunk_size + 1)
      \<and> (\<forall>p \<in> set g. chunk_size < int (length (fst p)) \<longrightarrow> g = [p]))"

section \<open>The scorer: \<^verbatim>\<open>SimpleTextSearch.search_keywords\<close>\<close>

record scored_chunk = chunk +
  score :: nat

definition medical_terms :: "string list" where
  "medical_terms = [''hemorrhage'', ''bleeding'', ''tourniquet'', ''airway'', ''breathing'',
     ''circulation'', ''shock'', ''wound'']"

text \<open>
  \<^verbatim>\<open>set(query.lower().split())\<close>. Python iterates a set in an order of its own; the loop over
  it only adds numbers, so any duplicate-free enumeration gives the same score.
\<close>

definition query_words :: "string \<Rightarrow> string list" where
  "query_words query = remdups (split_ws (lower query))"

text \<open>The body of the loop over the chunks: the score of one chunk.\<close>

definition chunk_score :: "string \<Rightarrow> chunk \<Rightarrow> nat" where
  "chunk_score query c =
     (let chunk_text = lower (text' c);
          counted = fold (\<lambda>word score. score + str_count chunk_text word) (query_words query) 0
      in fold (\<lambda>term score.
                 if contains chunk_text term \<and> contains (lower query) term then score + 5 else score)
           medical_terms counted)"

definition scored :: "string \<Rightarrow> chunk \<Rightarrow> scored_chunk" where
  "scored query c =
     \<lparr>text' = text' c, chunk_id = chunk_id c, page_info = page_info c, score = chunk_score query c\<rparr>"

fun score_loop :: "string \<Rightarrow> chunk list \<Rightarrow> scored_chunk list \<Rightarrow> scored_chunk list" where
  "score_loop query [] scored_chunks = scored_chunks"
| "score_loop query (c # chunks) scored_chunks =
     (if chunk_score query c > 0
      then score_loop query chunks (scored_chunks @ [scored query c])
      else score_loop query chunks scored_chunks)"

text \<open>
  \<^verbatim>\<open>scored_chunks.sort(key=lambda x: x["score"], reverse=True)\<close> is a stable sort, descending:
  the stable ascending sort on the negated score. Then \<^verbatim>\<open>scored_chunks[:max_results]\<close>.
\<close>

definition search_keywords :: "chunk list \<Rightarrow> string \<Rightarrow> int \<Rightarrow> scored_chunk list" where
  "search_keywords chunks query max_results =
     slice_to max_results (sort_key (\<lambda>x. - int (score x)) (score_loop query chunks []))"

section \<open>Context assembly and the query: \<^verbatim>\<open>SimpleTCCCCLI.query\<close>\<close>

definition source_label :: "nat \<Rightarrow> scored_chunk \<Rightarrow> string" where
  "source_label i result =
     ''[Source '' @ str_nat (i + 1) @ '' - '' @ str_replace (page_info result) ''--- Page'' ''Page''
       @ '']'' @ backslash_n"

definition context_parts :: "scored_chunk list \<Rightarrow> string list" where
  "context_parts search_results =
     map (\<lambda>(i, result). source_label i result @ take 600 (text' result))
       (enumerate 0 (take 3 search_results))"

definition build_context :: "scored_chunk list \<Rightarrow> string" where
  "build_context search_results =
     (if search_results = [] then []
      else join (backslash_n @ backslash_n) (context_parts search_results))"

text \<open>
  The prompt \<^verbatim>\<open>SimpleTCCCLLM.query\<close> sends to the generation backend. Its triple-quoted
  strings hold real line feeds.
\<close>

definition full_prompt :: "string \<Rightarrow> string \<Rightarrow> string" where
  "full_prompt prompt context' =
     (if context' \<noteq> []
      then ''TCCC Handbook Context:'' @ [CHR 0x0A] @ context' @ [CHR 0x0A, CHR 0x0A]
           @ ''Emergency Question: '' @ prompt @ [CHR 0x0A, CHR 0x0A]
           @ ''Based on the handbook context above, provide immediate field guidance using bullet points for procedures:''
      else ''Emergency Question: '' @ prompt @ [CHR 0x0A, CHR 0x0A]
           @ ''Provide immediate TCCC field guidance:'')"

text \<open>
  The console. \<open>query\<close> prints through rich's \<^verbatim>\<open>Console.print\<close>, which reads its argument as
  console markup and raises \<^verbatim>\<open>MarkupError\<close> when a closing tag matches no open tag. Three
  prints splice run-time text into markup: the query line (the question, between tags named
  by \<open>urgency_color\<close>), the panel (the backend's response) and the source lines (the page
  labels). The library is not part of the repository: its verdict on a markup string is the
  parameter \<open>markup_ok\<close>. The other prints are constant strings of the source, which are
  well-formed markup. An exception ends the run: a step on a run that has raised does
  nothing.
\<close>

datatype error = MarkupError

datatype event =
    Print string
  | Search "scored_chunk list"
  | Post string
  | Show_panel string string string

type_synonym run = "event list \<times> error option"

definition step :: "event \<Rightarrow> run \<Rightarrow> run" where
  "step e r = (case r of (events, Some raised) \<Rightarrow> r | (events, None) \<Rightarrow> (events @ [e], None))"

definition console_print :: "(string \<Rightarrow> bool) \<Rightarrow> string \<Rightarrow> run \<Rightarrow> run" where
  "console_print markup_ok markup r =
     (case r of
        (events, Some raised) \<Rightarrow> r
      | (events, None) \<Rightarrow>
          if markup_ok markup then (events @ [Print markup], None) else (events, Some MarkupError))"

text \<open>\<^verbatim>\<open>console.print(Panel(response, title=..., border_style=...))\<close>: the body is markup.\<close>

definition print_panel :: "(string \<Rightarrow> bool) \<Rightarrow> string \<Rightarrow> string \<Rightarrow> string \<Rightarrow> run \<Rightarrow> run" where
  "print_panel markup_ok body title border_style r =
     (case r of
        (events, Some raised) \<Rightarrow> r
      | (events, None) \<Rightarrow>
          if markup_ok body then (events @ [Show_panel body title border_style], None)
          else (events, Some MarkupError))"

text \<open>
  The two f-strings with run-time text. The pictographs of the source's strings are left out
  here and below: they are no markup.
\<close>

definition query_line :: "string \<Rightarrow> string \<Rightarrow> string" where
  "query_line urgency_color question =
     ''['' @ urgency_color @ '']'' @ ''QUERY: '' @ question @ ''[/'' @ urgency_color @ '']''"

definition source_line :: "nat \<Rightarrow> scored_chunk \<Rightarrow> string" where
  "source_line i result =
     ''[dim]'' @ str_nat (i + 1) @ ''. '' @ str_replace (page_info result) ''--- Page'' ''Page''
       @ '' (relevance score: '' @ str_nat (score result) @ '')[/dim]''"

text \<open>
  One run of \<open>query\<close>, in the order of the source: the events that happened and then the
  returned response, or the exception that ended the run. \<open>Search\<close> records the call of
  \<open>search_keywords\<close> with its result, \<open>Post\<close> the prompt sent to the backend, whose answer is
  a function \<open>generate\<close> of the prompt (\<^verbatim>\<open>SimpleTCCCLLM.query\<close> catches its own exceptions). The
  chunk sequence is the search engine's state. The last print, of the elapsed time, is left
  out.
\<close>

definition query ::
  "(string \<Rightarrow> bool) \<Rightarrow> chunk list \<Rightarrow> (string \<Rightarrow> string) \<Rightarrow> string \<Rightarrow> bool \<Rightarrow> event list \<times> (error + string)" where
  "query markup_ok chunks generate question urgent =
     (let urgency_color = (if urgent then ''red'' else ''yellow'');
          r1 = console_print markup_ok (query_line urgency_color question) ([], None);
          r2 = step (Print ''Searching TCCC handbook...'') r1;
          results = search_keywords chunks question 5;
          r3 = step (Search results) r2;
          r4 = (if results = []
                then step (Print ''[yellow]No relevant handbook content found[/yellow]'') r3
                else r3);
          context' = build_context results;
          r5 = step (Print ''Generating medical guidance...'') r4;
          prompt = full_prompt question context';
          response = generate prompt;
          r6 = step (Post prompt) r5;
          r7 = step (Print (backslash_n @ replicate 60 CHR ''='')) r6;
          r8 = (if urgent
                then print_panel markup_ok response ''URGENT MEDICAL GUIDANCE'' ''red'' r7
                else print_panel markup_ok response ''TCCC Guidance'' ''green'' r7);
          r9 = (if results = [] then r8
                else fold (console_print markup_ok)
                       (map (\<lambda>(i, result). source_line i result) (enumerate 0 (take 3 results)))
                       (step (Print (backslash_n @ ''[dim]Sources:[/dim]'')) r8))
      in case r9 of
           (events, None) \<Rightarrow> (events, Inr response)
         | (events, Some raised) \<Rightarrow> (events, Inl raised))"

text \<open>The events of retrieval: the search and the request to the backend.\<close>

fun is_retrieval :: "event \<Rightarrow> bool" where
  "is_retrieval (Search results) = True"
| "is_retrieval (Post prompt) = True"
| "is_retrieval (Print markup) = False"
| "is_retrieval (Show_panel body title border_style) = False"

text \<open>Two runs with the same retrieval events and the same exception, if any.\<close>

definition same_retrieval :: "run \<Rightarrow> run \<Rightarrow> bool" where
  "same_retrieval r r' =
     (snd r = snd r' \<and> filter is_retrieval (fst r) = filter is_retrieval (fst r'))"

text \<open>
  An instance of the console's check, to run \<open>query\<close> on concrete inputs. It follows the
  library's tag discipline: a tag is \<^verbatim>\<open>[\<close>, a text that starts with a lower-case letter,
  \<^verbatim>\<open>#\<close>, \<^verbatim>\<open>/\<close> or \<^verbatim>\<open>@\<close> and holds no \<^verbatim>\<open>[\<close>, and the next \<^verbatim>\<open>]\<close>; its name is the text
  before \<^verbatim>\<open>=\<close>. A tag opens under its name; \<^verbatim>\<open>[/name]\<close> closes the nearest open tag of that
  name and fails when there is none; \<^verbatim>\<open>[/]\<close> closes the last open tag and fails when none is
  open. Tags left open at the end are accepted. The library's backslash escapes and its
  normal forms of style names are not part of this instance.
\<close>

definition tag_start :: "char \<Rightarrow> bool" where
  "tag_start c =
     ((97 \<le> (of_char c :: nat) \<and> (of_char c :: nat) \<le> 122)
      \<or> c = CHR ''#'' \<or> c = CHR ''/'' \<or> c = CHR ''@'')"

fun close_tag :: "string \<Rightarrow> string list \<Rightarrow> string list option" where
  "close_tag name [] = None"
| "close_tag name (t # open_tags) =
     (if t = name then Some open_tags else map_option ((#) t) (close_tag name open_tags))"

definition apply_tag :: "string \<Rightarrow> string list \<Rightarrow> string list option" where
  "apply_tag tag open_tags =
     (let name = takeWhile (\<lambda>c. c \<noteq> CHR ''='') tag
      in case name of
           [] \<Rightarrow> Some (name # open_tags)
         | c # rest \<Rightarrow>
             if c = CHR ''/''
             then (if strip rest \<noteq> [] then close_tag (strip rest) open_tags
                   else (case open_tags of [] \<Rightarrow> None | t # others \<Rightarrow> Some others))
             else Some (name # open_tags))"

fun scan_markup :: "string list \<Rightarrow> string option \<Rightarrow> string \<Rightarrow> bool" where
  "scan_markup open_tags tag [] = True"
| "scan_markup open_tags None (c # cs) =
     (if c = CHR ''['' then scan_markup open_tags (Some []) cs
      else scan_markup open_tags None cs)"
| "scan_markup open_tags (Some t) (c # cs) =
     (if c = CHR ''['' then scan_markup open_tags (Some []) cs
      else if c = CHR '']''
      then (if t = [] then scan_markup open_tags None cs
            else (case apply_tag t open_tags of
                    None \<Rightarrow> False
                  | Some still_open \<Rightarrow> scan_markup still_open None cs))
      else if t = [] \<and> \<not> tag_start c then scan_markup open_tags None cs
      else scan_markup open_tags (Some (t @ [c])) cs)"

definition tags_balanced :: "string \<Rightarrow> bool" where
  "tags_balanced markup = scan_markup [] None markup"

section \<open>Facts about the string primitives\<close>

lemma is_space_dot: "\<not> is_space CHR ''.''"
  by (simp add: is_space_def)

lemma strip_dot: "strip ''.'' = ''.''"
  by (simp add: strip_def is_space_dot)

text \<open>A string strips to nothing exactly when it is whitespace only.\<close>

lemma strip_empty_iff: "strip s = [] \<longleftrightarrow> (\<forall>c \<in> set s. is_space c)"
proof
  assume blank: "strip s = []"
  show "\<forall>c \<in> set s. is_space c"
  proof (rule ccontr)
    assume "\<not> (\<forall>c \<in> set s. is_space c)"
    then have ne: "dropWhile is_space s \<noteq> []"
      by (simp add: dropWhile_eq_Nil_conv)
    then have "\<not> is_space (hd (dropWhile is_space s))"
      by (rule hd_dropWhile)
    moreover have "hd (dropWhile is_space s) \<in> set (rev (dropWhile is_space s))"
      using ne by simp
    ultimately have "dropWhile is_space (rev (dropWhile is_space s)) \<noteq> []"
      by (auto simp: dropWhile_eq_Nil_conv)
    with blank show False by (simp add: strip_def)
  qed
next
  assume "\<forall>c \<in> set s. is_space c"
  then show "strip s = []" by (auto simp: strip_def dest: set_dropWhileD)
qed

lemma length_strip: "length (strip s) \<le> length s"
proof -
  have "length (strip s) \<le> length (dropWhile is_space s)"
    unfolding strip_def using length_dropWhile_le [of is_space "rev (dropWhile is_space s)"] by simp
  also have "\<dots> \<le> length s" by (rule length_dropWhile_le)
  finally show ?thesis .
qed

text \<open>\<^verbatim>\<open>count\<close> is positive exactly where \<^verbatim>\<open>in\<close> holds.\<close>

lemma str_count_pos: "0 < str_count s sub \<longleftrightarrow> contains s sub"
  by (induction s sub rule: str_count.induct) auto

lemma str_count_zero: "str_count s sub = 0 \<longleftrightarrow> \<not> contains s sub"
proof -
  have "str_count s sub = 0 \<longleftrightarrow> \<not> 0 < str_count s sub" by simp
  then show ?thesis unfolding str_count_pos .
qed

text \<open>
  The pieces of \<^verbatim>\<open>re.split\<close>: there is at least one, and only the first and the last can be
  empty.
\<close>

lemma re_split_acc_shape:
  "re_split_acc r acc cs \<noteq> []
   \<and> (\<forall>s \<in> set (butlast (tl (re_split_acc r acc cs))). s \<noteq> [])
   \<and> (acc \<noteq> [] \<or> r \<longrightarrow> hd (re_split_acc r acc cs) = [] \<longrightarrow> tl (re_split_acc r acc cs) = [])"
proof (induction cs arbitrary: r acc)
  case Nil
  then show ?case by simp
next
  case (Cons c cs)
  show ?case
  proof (cases "is_terminator c")
    case False
    with Cons.IH [of False "acc @ [c]"] show ?thesis by simp
  next
    case stop: True
    show ?thesis
    proof (cases r)
      case True
      with stop Cons.IH [of True acc] show ?thesis by simp
    next
      case False
      let ?rest = "re_split_acc True [] cs"
      from Cons.IH [of True "[]"] have ne: "?rest \<noteq> []"
        and inner: "\<forall>s \<in> set (butlast (tl ?rest)). s \<noteq> []"
        and first: "hd ?rest = [] \<longrightarrow> tl ?rest = []" by simp_all
      obtain x xs where rest: "?rest = x # xs" using ne by (cases ?rest) auto
      have "\<forall>s \<in> set (butlast ?rest). s \<noteq> []"
        using inner first unfolding rest by (cases xs) auto
      with stop False show ?thesis by simp
    qed
  qed
qed

lemma re_split_nonempty: "re_split doc \<noteq> []"
  using re_split_acc_shape [of False "[]" doc] by (simp add: re_split_def)

lemma re_split_inner_nonempty: "\<forall>s \<in> set (butlast (tl (re_split doc))). s \<noteq> []"
  using re_split_acc_shape [of False "[]" doc] by (simp add: re_split_def)

section \<open>The chunker and its sentence groups\<close>

subsection \<open>Rendering a group\<close>

lemma render_Nil [simp]: "render [] = []"
  by (simp add: render_def)

lemma render_snoc [simp]: "render (g @ [p]) = render g @ piece_text p"
  by (simp add: render_def)

lemma render_single [simp]: "render [p] = piece_text p"
  by (simp add: render_def)

lemma length_piece_le_render: "p \<in> set g \<Longrightarrow> length (fst p) \<le> length (render g)"
proof (induction g)
  case Nil
  then show ?case by simp
next
  case (Cons a g)
  have "render (a # g) = piece_text a @ render g" by (simp add: render_def)
  moreover have "length (fst a) \<le> length (piece_text a)" by (cases a) simp
  ultimately show ?case using Cons by auto
qed

lemma dotted_piece_not_blank: "p \<in> set g \<Longrightarrow> snd p \<Longrightarrow> strip (render g) \<noteq> []"
proof -
  assume "p \<in> set g" "snd p"
  from \<open>snd p\<close> have "CHR ''.'' \<in> set (piece_text p)" by (cases p) simp
  with \<open>p \<in> set g\<close> have "CHR ''.'' \<in> set (render g)" by (auto simp: render_def)
  then show ?thesis using is_space_dot by (auto simp: strip_empty_iff)
qed

lemma render_dotted: "list_all snd g \<Longrightarrow> render g = concat (map (\<lambda>x. x @ ''.'') (map fst g))"
  by (induction g) (auto simp: render_def)

lemma dotted_pieces: "list_all snd g \<Longrightarrow> map (\<lambda>x. (x, True)) (map fst g) = g"
  by (induction g) auto

subsection \<open>The source loop and the group loop agree\<close>

text \<open>
  Started on a buffer that is the rendering of the current group, the two loops take the
  same branches: the final buffer is the rendering of the final group, and the text of each
  emitted chunk is the stripped rendering of the group emitted with it.
\<close>

lemma chunk_loop_group_loop:
  "map text' chunks = map (strip \<circ> render) gs \<Longrightarrow>
   fst (snd (chunk_loop n ss chunks (render g) cid)) = render (snd (group_loop n ss gs g))
   \<and> map text' (fst (chunk_loop n ss chunks (render g) cid))
       = map (strip \<circ> render) (fst (group_loop n ss gs g))"
proof (induction ss arbitrary: chunks gs g cid)
  case Nil
  then show ?case by simp
next
  case (Cons s ss)
  show ?case
  proof (cases "int (length (render g @ s)) > n \<and> render g \<noteq> []")
    case True
    let ?c = "\<lparr>text' = strip (render g), chunk_id = cid, page_info = find_page (render g)\<rparr>"
    have texts: "map text' (chunks @ [?c]) = map (strip \<circ> render) (gs @ [g])"
      using Cons.prems by simp
    have c: "chunk_loop n (s # ss) chunks (render g) cid
        = chunk_loop n ss (chunks @ [?c]) (render [(s, False)]) (cid + 1)"
      using True by simp
    have g: "group_loop n (s # ss) gs g = group_loop n ss (gs @ [g]) [(s, False)]"
      using True by simp
    show ?thesis unfolding c g by (rule Cons.IH [OF texts])
  next
    case False
    have c: "chunk_loop n (s # ss) chunks (render g) cid
        = chunk_loop n ss chunks (render (g @ [(s, True)])) cid"
      using False by auto
    have g: "group_loop n (s # ss) gs g = group_loop n ss gs (g @ [(s, True)])"
      using False by auto
    show ?thesis unfolding c g by (rule Cons.IH [OF Cons.prems])
  qed
qed

lemma create_chunks_groups:
  "map text' (create_chunks doc n) = map (strip \<circ> render) (chunk_groups doc n)"
  using chunk_loop_group_loop [of "[]" "[]" n "re_split doc" "[]" 0]
  by (auto simp: create_chunks_def chunk_groups_def split: prod.splits)

lemma final_buffer_render:
  "final_buffer doc n = render (snd (group_loop n (re_split doc) [] []))"
  using chunk_loop_group_loop [of "[]" "[]" n "re_split doc" "[]" 0]
  by (auto simp: final_buffer_def split: prod.splits)

lemma length_create_chunks: "length (create_chunks doc n) = length (chunk_groups doc n)"
  using create_chunks_groups [of doc n] by (metis length_map)

lemma text_nth_chunk:
  "i < length (create_chunks doc n) \<Longrightarrow>
     text' (create_chunks doc n ! i) = strip (render (chunk_groups doc n ! i))"
proof -
  assume i: "i < length (create_chunks doc n)"
  then have "text' (create_chunks doc n ! i) = map text' (create_chunks doc n) ! i" by simp
  also have "\<dots> = map (strip \<circ> render) (chunk_groups doc n) ! i"
    by (simp only: create_chunks_groups)
  also have "\<dots> = strip (render (chunk_groups doc n ! i))"
    using i by (simp add: length_create_chunks)
  finally show ?thesis .
qed

subsection \<open>The groups of a run\<close>

lemma loop_groups_eq:
  "loop_groups doc n
     = fst (group_loop n (re_split doc) [] []) @ [snd (group_loop n (re_split doc) [] [])]"
  by (simp add: loop_groups_def split: prod.splits)

lemma chunk_groups_cases:
  "chunk_groups doc n
     = (if strip (final_buffer doc n) \<noteq> [] then loop_groups doc n else butlast (loop_groups doc n))"
  by (simp add: chunk_groups_def loop_groups_def final_buffer_render split: prod.splits)

lemma last_loop_groups: "render (last (loop_groups doc n)) = final_buffer doc n"
  by (simp add: loop_groups_def final_buffer_render split: prod.splits)

lemma loop_groups_nonempty: "loop_groups doc n \<noteq> []"
  by (simp add: loop_groups_def split: prod.splits)

lemma chunk_groups_nth:
  "i < length (chunk_groups doc n) \<Longrightarrow>
     chunk_groups doc n ! i = loop_groups doc n ! i \<and> i < length (loop_groups doc n)"
  by (auto simp: chunk_groups_cases nth_butlast split: if_splits)

text \<open>Each step puts the sentence into exactly one group, so the groups spell the sentences.\<close>

lemma group_loop_sentences:
  "map fst (concat (fst (group_loop n ss gs g) @ [snd (group_loop n ss gs g)]))
     = map fst (concat (gs @ [g])) @ ss"
  by (induction ss arbitrary: gs g) simp_all

lemma loop_groups_sentences: "map fst (concat (loop_groups doc n)) = re_split doc"
  using group_loop_sentences [of n "re_split doc" "[]" "[]"]
  by (simp add: loop_groups_eq)

subsection \<open>Where the periods are\<close>

lemma opens_bare_snoc: "opens_bare g \<Longrightarrow> opens_bare (g @ [(s, True)])"
  by (cases g) (auto simp: opens_bare_def)

lemma group_loop_shapes:
  "list_all snd (hd (gs @ [g])) \<Longrightarrow> \<forall>h \<in> set (tl (gs @ [g])). opens_bare h \<Longrightarrow>
   list_all snd (hd (fst (group_loop n ss gs g) @ [snd (group_loop n ss gs g)]))
   \<and> (\<forall>h \<in> set (tl (fst (group_loop n ss gs g) @ [snd (group_loop n ss gs g)])). opens_bare h)"
proof (induction ss arbitrary: gs g)
  case Nil
  then show ?case by simp
next
  case (Cons s ss)
  show ?case
  proof (cases "int (length (render g @ s)) > n \<and> render g \<noteq> []")
    case True
    have step: "group_loop n (s # ss) gs g = group_loop n ss (gs @ [g]) [(s, False)]"
      using True by simp
    have "list_all snd (hd ((gs @ [g]) @ [[(s, False)]]))"
      using Cons.prems(1) by (cases gs) simp_all
    moreover have "\<forall>h \<in> set (tl ((gs @ [g]) @ [[(s, False)]])). opens_bare h"
      using Cons.prems(2) by (cases gs) (auto simp: opens_bare_def)
    ultimately show ?thesis unfolding step by (rule Cons.IH)
  next
    case False
    have step: "group_loop n (s # ss) gs g = group_loop n ss gs (g @ [(s, True)])"
      using False by auto
    have "list_all snd (hd (gs @ [g @ [(s, True)]]))"
      using Cons.prems(1) by (cases gs) simp_all
    moreover have "\<forall>h \<in> set (tl (gs @ [g @ [(s, True)]])). opens_bare h"
      using Cons.prems(2) by (cases gs) (auto simp: opens_bare_snoc)
    ultimately show ?thesis unfolding step by (rule Cons.IH)
  qed
qed

lemma loop_groups_shapes:
  "list_all snd (hd (loop_groups doc n)) \<and> (\<forall>h \<in> set (tl (loop_groups doc n)). opens_bare h)"
  using group_loop_shapes [of "[]" "[]" n "re_split doc"]
  by (simp add: loop_groups_eq)

lemma later_group_opens_bare:
  "0 < i \<Longrightarrow> i < length (chunk_groups doc n) \<Longrightarrow> opens_bare (chunk_groups doc n ! i)"
proof -
  assume i: "0 < i" "i < length (chunk_groups doc n)"
  then have eq: "chunk_groups doc n ! i = loop_groups doc n ! i"
    and len: "i < length (loop_groups doc n)"
    using chunk_groups_nth by blast+
  from i(1) len have "loop_groups doc n ! i = tl (loop_groups doc n) ! (i - 1)"
    by (cases "loop_groups doc n") (simp_all add: nth_Cons')
  moreover from i(1) len have "i - 1 < length (tl (loop_groups doc n))" by simp
  ultimately have "loop_groups doc n ! i \<in> set (tl (loop_groups doc n))"
    by (metis nth_mem)
  then show ?thesis using loop_groups_shapes eq by simp
qed

lemma first_group_dotted:
  "0 < length (chunk_groups doc n) \<Longrightarrow> list_all snd (chunk_groups doc n ! 0)"
proof -
  assume "0 < length (chunk_groups doc n)"
  then have "chunk_groups doc n ! 0 = loop_groups doc n ! 0"
    using chunk_groups_nth by blast
  also have "\<dots> = hd (loop_groups doc n)"
    using loop_groups_nonempty [of doc n] by (simp add: hd_conv_nth)
  finally show ?thesis using loop_groups_shapes by simp
qed

lemma opens_bare_form:
  "opens_bare g \<Longrightarrow> \<exists>s rest. g = (s, False) # map (\<lambda>x. (x, True)) rest
      \<and> render g = s @ concat (map (\<lambda>x. x @ ''.'') rest)"
proof -
  assume "opens_bare g"
  then obtain s ps where g: "g = (s, False) # ps" and dotted: "list_all snd ps"
    by (cases g) (auto simp: opens_bare_def)
  have "g = (s, False) # map (\<lambda>x. (x, True)) (map fst ps)"
    by (simp only: g dotted_pieces [OF dotted])
  moreover have "render g = s @ concat (map (\<lambda>x. x @ ''.'') (map fst ps))"
    using render_dotted [OF dotted] by (simp add: g render_def)
  ultimately show ?thesis by blast
qed

text \<open>
  A blank leftover buffer is one bare sentence: the last sentence of the text, opened by the
  overflow branch.
\<close>

lemma blank_last_group:
  assumes "strip (final_buffer doc n) = []"
  shows "last (loop_groups doc n) = [(final_buffer doc n, False)]"
proof -
  let ?G = "loop_groups doc n"
  let ?g = "last ?G"
  have ne: "?G \<noteq> []" by (rule loop_groups_nonempty)
  have blank: "strip (render ?g) = []" using assms by (simp add: last_loop_groups)
  have bare: "\<not> snd p" if "p \<in> set ?g" for p
    using dotted_piece_not_blank [OF that] blank by blast
  have filled: "?g \<noteq> []"
  proof
    assume empty: "?g = []"
    show False
    proof (cases "tl ?G = []")
      case True
      with ne have "?G = [?g]" by (cases ?G) auto
      with empty have "map fst (concat ?G) = []" by simp
      with re_split_nonempty [of doc] show False by (simp add: loop_groups_sentences)
    next
      case False
      with ne have "?g \<in> set (tl ?G)" by (metis last_in_set last_tl)
      with loop_groups_shapes [of doc n] have "opens_bare ?g" by blast
      with empty show False by (simp add: opens_bare_def)
    qed
  qed
  have "opens_bare ?g"
  proof (cases "tl ?G = []")
    case True
    with ne have "?g = hd ?G" by (cases ?G) auto
    with loop_groups_shapes [of doc n] have "list_all snd ?g" by simp
    with filled bare show ?thesis by (cases ?g) auto
  next
    case False
    with ne have "?g \<in> set (tl ?G)" by (metis last_in_set last_tl)
    with loop_groups_shapes [of doc n] show ?thesis by blast
  qed
  then obtain s rest where g: "?g = (s, False) # rest" and dotted: "list_all snd rest"
    by (cases ?g) (auto simp: opens_bare_def)
  have "rest = []"
  proof (cases rest)
    case Nil
    then show ?thesis .
  next
    case (Cons p ps)
    with dotted have "snd p" by simp
    moreover have "p \<in> set ?g" using g Cons by simp
    ultimately show ?thesis using bare by blast
  qed
  with g have single: "?g = [(s, False)]" by simp
  then have "render ?g = s" by simp
  then have "s = final_buffer doc n" by (simp add: last_loop_groups)
  with single show ?thesis by simp
qed

subsection \<open>Sizes\<close>

lemma fits_single: "fits n [(s, d)]"
  by (cases d) (auto simp: fits_def)

lemma fits_snoc:
  assumes "int (length (render g @ s)) \<le> n"
  shows "fits n (g @ [(s, True)])"
proof -
  have "int (length (render (g @ [(s, True)]))) \<le> n + 1"
    using assms by simp
  moreover have "\<not> n < int (length (fst p))" if "p \<in> set (g @ [(s, True)])" for p
  proof (cases "p \<in> set g")
    case True
    then have "length (fst p) \<le> length (render g)" by (rule length_piece_le_render)
    with assms show ?thesis by simp
  next
    case False
    with that have "p = (s, True)" by simp
    with assms show ?thesis by simp
  qed
  ultimately show ?thesis unfolding fits_def by blast
qed

text \<open>
  The invariant of the loop. An empty buffer can open a group only from an empty sentence,
  and behind the first sentence only the last one can be empty: then the loop is over.
\<close>

lemma group_loop_fits:
  "\<forall>s \<in> set (butlast ss). s \<noteq> [] \<Longrightarrow> render g = [] \<longrightarrow> ss = [] \<Longrightarrow> fits n g \<Longrightarrow>
   \<forall>h \<in> set gs. fits n h \<Longrightarrow>
   \<forall>h \<in> set (fst (group_loop n ss gs g) @ [snd (group_loop n ss gs g)]). fits n h"
proof (induction ss arbitrary: gs g)
  case Nil
  then show ?case by simp
next
  case (Cons s ss)
  from Cons.prems(2) have buffer: "render g \<noteq> []" by simp
  have inner: "\<forall>x \<in> set (butlast ss). x \<noteq> []"
    using Cons.prems(1) by (cases ss) simp_all
  show ?case
  proof (cases "int (length (render g @ s)) > n")
    case True
    have step: "group_loop n (s # ss) gs g = group_loop n ss (gs @ [g]) [(s, False)]"
      using True buffer by simp
    have last_only: "render [(s, False)] = [] \<longrightarrow> ss = []"
      using Cons.prems(1) by (cases ss) auto
    have "\<forall>h \<in> set (gs @ [g]). fits n h"
      using Cons.prems(3,4) by simp
    from Cons.IH [OF inner last_only fits_single this] show ?thesis
      unfolding step .
  next
    case False
    have step: "group_loop n (s # ss) gs g = group_loop n ss gs (g @ [(s, True)])"
      using False by simp
    have keep: "render (g @ [(s, True)]) = [] \<longrightarrow> ss = []" by simp
    have "fits n (g @ [(s, True)])"
      using False by (intro fits_snoc) simp
    from Cons.IH [OF inner keep this Cons.prems(4)] show ?thesis
      unfolding step .
  qed
qed

lemma loop_groups_fit: "\<forall>h \<in> set (loop_groups doc n). fits n h"
proof -
  obtain s rest where split: "re_split doc = s # rest"
    using re_split_nonempty [of doc] by (cases "re_split doc") auto
  have inner: "\<forall>x \<in> set (butlast rest). x \<noteq> []"
    using re_split_inner_nonempty [of doc] by (simp add: split)
  have first: "group_loop n (re_split doc) [] [] = group_loop n rest [] [(s, True)]"
    by (simp add: split)
  have "render [(s, True)] = [] \<longrightarrow> rest = []" by simp
  from group_loop_fits [OF inner this fits_single, of "[]"] show ?thesis
    unfolding loop_groups_eq first by simp
qed

lemma chunk_groups_fit:
  "i < length (chunk_groups doc n) \<Longrightarrow> fits n (chunk_groups doc n ! i)"
  using chunk_groups_nth [of i doc n] loop_groups_fit [of doc n] by simp

section \<open>Claims about the chunker\<close>

text \<open>
  C2, as the code has it. The chunks partition the sentence sequence of \<^verbatim>\<open>re.split\<close>: the
  text of each chunk is the stripped rendering of one group of consecutive sentences, and the
  groups, in order, spell the sentences. When the leftover buffer is not blank they spell all
  of them. When it is blank (whitespace only, or empty) no chunk is built from it, the
  groups spell all sentences but the last, and the leftover buffer is exactly that last
  sentence. So no sentence is in two chunks, and the only sentence that can be in none is a
  blank last one.
\<close>

theorem chunks_partition_sentences:
  "map text' (create_chunks doc n) = map (strip \<circ> render) (chunk_groups doc n)
   \<and> (if strip (final_buffer doc n) \<noteq> []
      then map fst (concat (chunk_groups doc n)) = re_split doc
      else map fst (concat (chunk_groups doc n)) @ [final_buffer doc n] = re_split doc)"
proof (cases "strip (final_buffer doc n) \<noteq> []")
  case True
  then show ?thesis
    by (simp add: create_chunks_groups chunk_groups_cases loop_groups_sentences)
next
  case False
  then have last: "last (loop_groups doc n) = [(final_buffer doc n, False)]"
    by (simp add: blank_last_group)
  have "map fst (concat (butlast (loop_groups doc n) @ [last (loop_groups doc n)]))
      = map fst (concat (butlast (loop_groups doc n))) @ [final_buffer doc n]"
    unfolding last by simp
  then have "map fst (concat (loop_groups doc n))
      = map fst (concat (butlast (loop_groups doc n))) @ [final_buffer doc n]"
    using loop_groups_nonempty [of doc n] by simp
  with False show ?thesis
    by (simp add: create_chunks_groups chunk_groups_cases loop_groups_sentences)
qed

text \<open>
  C2 as stated fails. With \<open>chunk_size = 3\<close> the text \<^verbatim>\<open>"abcd.  "\<close> splits into the sentences
  \<^verbatim>\<open>"abcd"\<close> and \<^verbatim>\<open>"  "\<close>; the second one overflows, opens the leftover buffer and is dropped
  with it by \<^verbatim>\<open>if current_chunk.strip()\<close>. The only chunk is \<^verbatim>\<open>"abcd."\<close>: a sentence of the
  sequence is in no chunk, and the chunk texts without their periods are not the sentences.
\<close>

theorem dropped_blank_sentence_counterexample:
  "re_split ''abcd.  '' = [''abcd'', ''  '']
   \<and> map text' (create_chunks ''abcd.  '' 3) = [''abcd.'']
   \<and> map fst (concat (chunk_groups ''abcd.  '' 3)) = [''abcd'']
   \<and> filter (\<lambda>c. c \<noteq> CHR ''.'') (concat (map text' (create_chunks ''abcd.  '' 3)))
       \<noteq> concat (re_split ''abcd.  '')"
  by code_simp

text \<open>
  C3, as the code has it. The text of every chunk is the stripped rendering of its group. A
  chunk that is not a single sentence longer than \<open>chunk_size\<close> has at most \<open>chunk_size + 1\<close>
  characters: it exceeds \<open>chunk_size\<close> by the one re-appended period at most. A sentence longer
  than \<open>chunk_size\<close> is the only sentence of its chunk: it is neither split nor merged.
\<close>

theorem chunk_length_bound:
  "\<forall>i < length (create_chunks doc n).
      text' (create_chunks doc n ! i) = strip (render (chunk_groups doc n ! i))
      \<and> ((length (chunk_groups doc n ! i) = 1
            \<and> n < int (length (fst (hd (chunk_groups doc n ! i)))))
          \<or> int (length (text' (create_chunks doc n ! i))) \<le> n + 1)
      \<and> (\<forall>p \<in> set (chunk_groups doc n ! i).
            n < int (length (fst p)) \<longrightarrow> chunk_groups doc n ! i = [p])"
proof (intro allI impI)
  fix i assume i: "i < length (create_chunks doc n)"
  let ?g = "chunk_groups doc n ! i"
  have tx: "text' (create_chunks doc n ! i) = strip (render ?g)"
    using i by (rule text_nth_chunk)
  have "fits n ?g"
    using i by (simp add: chunk_groups_fit length_create_chunks)
  then have size: "(length ?g = 1 \<and> n < int (length (fst (hd ?g))))
      \<or> int (length (render ?g)) \<le> n + 1"
    and alone: "\<forall>p \<in> set ?g. n < int (length (fst p)) \<longrightarrow> ?g = [p]"
    by (simp_all add: fits_def)
  have "int (length (strip (render ?g))) \<le> int (length (render ?g))"
    using length_strip [of "render ?g"] by simp
  with size have "(length ?g = 1 \<and> n < int (length (fst (hd ?g))))
      \<or> int (length (text' (create_chunks doc n ! i))) \<le> n + 1"
    unfolding tx by linarith
  with tx alone show "text' (create_chunks doc n ! i) = strip (render ?g)
      \<and> ((length ?g = 1 \<and> n < int (length (fst (hd ?g))))
          \<or> int (length (text' (create_chunks doc n ! i))) \<le> n + 1)
      \<and> (\<forall>p \<in> set ?g. n < int (length (fst p)) \<longrightarrow> ?g = [p])"
    by blast
qed

text \<open>
  The bound at work, with \<open>chunk_size = 5\<close>: the sentence \<^verbatim>\<open>"abcdefgh"\<close> is a chunk of its own,
  and the chunk of \<^verbatim>\<open>"ij"\<close> and \<^verbatim>\<open>"kl"\<close> has five characters.
\<close>

theorem chunk_length_bound_witness:
  "chunk_groups ''abcdefgh.ij.kl'' 5 = [[(''abcdefgh'', True)], [(''ij'', False), (''kl'', True)]]
   \<and> map text' (create_chunks ''abcdefgh.ij.kl'' 5) = [''abcdefgh.'', ''ijkl.'']
   \<and> (1::nat) < length (create_chunks ''abcdefgh.ij.kl'' 5)
   \<and> ((length (chunk_groups ''abcdefgh.ij.kl'' 5 ! 1) = 1
         \<and> 5 < int (length (fst (hd (chunk_groups ''abcdefgh.ij.kl'' 5 ! 1)))))
       \<or> int (length (text' (create_chunks ''abcdefgh.ij.kl'' 5 ! 1))) \<le> 5 + 1)"
proof -
  have groups: "chunk_groups ''abcdefgh.ij.kl'' 5
      = [[(''abcdefgh'', True)], [(''ij'', False), (''kl'', True)]]"
    by code_simp
  have texts: "map text' (create_chunks ''abcdefgh.ij.kl'' 5) = [''abcdefgh.'', ''ijkl.'']"
    by code_simp
  have len: "(1::nat) < length (create_chunks ''abcdefgh.ij.kl'' 5)" by code_simp
  from chunk_length_bound [of "''abcdefgh.ij.kl''" 5] len
  have "(length (chunk_groups ''abcdefgh.ij.kl'' 5 ! 1) = 1
         \<and> 5 < int (length (fst (hd (chunk_groups ''abcdefgh.ij.kl'' 5 ! 1)))))
       \<or> int (length (text' (create_chunks ''abcdefgh.ij.kl'' 5 ! 1))) \<le> 5 + 1"
    by blast
  with groups texts len show ?thesis by blast
qed

text \<open>
  C3 as stated fails. With \<open>chunk_size = 4\<close> the text \<^verbatim>\<open>"abc."\<close> splits into \<^verbatim>\<open>"abc"\<close> and the
  empty sentence behind the period. Both are accumulated, each with its period, into the one
  chunk \<^verbatim>\<open>"abc.."\<close>: two sentences, five characters, and the trailing sentence has length 0,
  so the chunk is longer than \<open>chunk_size\<close> plus the length of its trailing sentence.
\<close>

theorem trailing_empty_sentence_counterexample:
  "re_split ''abc.'' = [''abc'', '''']
   \<and> chunk_groups ''abc.'' 4 = [[(''abc'', True), ('''', True)]]
   \<and> map text' (create_chunks ''abc.'' 4) = [''abc..'']
   \<and> \<not> int (length (text' (hd (create_chunks ''abc.'' 4))))
         \<le> 4 + int (length (fst (last (hd (chunk_groups ''abc.'' 4)))))"
  by code_simp

text \<open>
  C4. The empty input text does not give the empty chunk sequence: \<^verbatim>\<open>re.split\<close> returns the
  one empty sentence, the loop appends a period to it, and the buffer \<^verbatim>\<open>"."\<close> passes the
  \<^verbatim>\<open>if current_chunk.strip()\<close> test. For every \<open>chunk_size\<close> the result is the single chunk
  \<^verbatim>\<open>"."\<close> with id 0 and label \<^verbatim>\<open>"Final chunk"\<close>.
\<close>

theorem create_chunks_empty_text:
  "create_chunks [] chunk_size = [\<lparr>text' = ''.'', chunk_id = 0, page_info = ''Final chunk''\<rparr>]"
  by (simp add: create_chunks_def re_split_def strip_dot)

text \<open>
  C5, as the code has it. When the leftover buffer is not blank, the chunking is not empty,
  its last chunk is the one built from that buffer, and its label is \<^verbatim>\<open>"Final chunk"\<close>,
  whatever the buffer holds: the page-marker scan is not run on it. When the leftover buffer
  is blank, no trailing chunk is built: the result is the chunks closed inside the loop.
\<close>

theorem final_chunk_label:
  "(strip (final_buffer doc n) \<noteq> [] \<longrightarrow>
      create_chunks doc n \<noteq> []
      \<and> text' (last (create_chunks doc n)) = strip (final_buffer doc n)
      \<and> page_info (last (create_chunks doc n)) = ''Final chunk'')
   \<and> (strip (final_buffer doc n) = [] \<longrightarrow>
      create_chunks doc n = fst (chunk_loop n (re_split doc) [] [] 0))"
  by (simp add: create_chunks_def final_buffer_def split: prod.splits)

text \<open>
  A leftover buffer that starts with a page marker line: the scan would find
  \<^verbatim>\<open>"--- Page 1 ---"\<close> in it, and the label is \<^verbatim>\<open>"Final chunk"\<close>. And a blank leftover
  buffer: the result is what the loop closed.
\<close>

theorem final_chunk_label_witness:
  "find_page (final_buffer (backslash_n @ ''--- Page 1 ---'' @ backslash_n @ ''Apply pressure'') 1000)
     = ''--- Page 1 ---''
   \<and> strip (final_buffer (backslash_n @ ''--- Page 1 ---'' @ backslash_n @ ''Apply pressure'') 1000)
       \<noteq> []
   \<and> page_info (last (create_chunks
         (backslash_n @ ''--- Page 1 ---'' @ backslash_n @ ''Apply pressure'') 1000))
       = ''Final chunk''
   \<and> strip (final_buffer ''abcd.  '' 3) = []
   \<and> create_chunks ''abcd.  '' 3 = fst (chunk_loop 3 (re_split ''abcd.  '') [] [] 0)"
proof -
  have blank: "strip (final_buffer ''abcd.  '' 3) = []" by code_simp
  have marker: "find_page (final_buffer
        (backslash_n @ ''--- Page 1 ---'' @ backslash_n @ ''Apply pressure'') 1000)
     = ''--- Page 1 ---''"
    by code_simp
  have leftover: "strip (final_buffer
        (backslash_n @ ''--- Page 1 ---'' @ backslash_n @ ''Apply pressure'') 1000) \<noteq> []"
    by code_simp
  from final_chunk_label [of "backslash_n @ ''--- Page 1 ---'' @ backslash_n @ ''Apply pressure''" 1000]
    final_chunk_label [of "''abcd.  ''" 3] marker leftover blank
  show ?thesis by blast
qed

text \<open>
  C5 as stated fails. With \<open>chunk_size = 10\<close>, a page marker, the sentence \<^verbatim>\<open>"abc"\<close>, a period
  and a space: the space overflows, the chunk before it is closed inside the loop, where the
  scan labels it \<^verbatim>\<open>"--- Page 1 ---"\<close>, and the blank leftover gives no chunk. The chunking is
  not empty and its last chunk is not labelled \<^verbatim>\<open>"Final chunk"\<close>.
\<close>

theorem last_chunk_page_label_counterexample:
  "create_chunks (backslash_n @ ''--- Page 1 ---'' @ backslash_n @ ''abc. '') 10
     = [\<lparr>text' = backslash_n @ ''--- Page 1 ---'' @ backslash_n @ ''abc.'', chunk_id = 0,
         page_info = ''--- Page 1 ---''\<rparr>]
   \<and> page_info (last (create_chunks (backslash_n @ ''--- Page 1 ---'' @ backslash_n @ ''abc. '') 10))
       \<noteq> ''Final chunk''"
  by code_simp

text \<open>
  C10. A period is appended to a sentence only in the accumulating branch. Every chunk but
  the first opens with the sentence that overflowed, stored bare, and all its other sentences
  carry the period: its text is the stripped concatenation of the bare opening sentence and
  the dotted rest. In the first chunk every sentence carries the period.
\<close>

theorem opening_sentence_bare:
  "(\<forall>i. 0 < i \<and> i < length (create_chunks doc n) \<longrightarrow>
      (\<exists>s rest. chunk_groups doc n ! i = (s, False) # map (\<lambda>x. (x, True)) rest
         \<and> text' (create_chunks doc n ! i) = strip (s @ concat (map (\<lambda>x. x @ ''.'') rest))))
   \<and> (0 < length (create_chunks doc n) \<longrightarrow>
        list_all snd (chunk_groups doc n ! 0)
        \<and> text' (create_chunks doc n ! 0)
            = strip (concat (map (\<lambda>x. x @ ''.'') (map fst (chunk_groups doc n ! 0)))))"
proof (intro conjI allI impI)
  fix i assume i: "0 < i \<and> i < length (create_chunks doc n)"
  then have "opens_bare (chunk_groups doc n ! i)"
    by (simp add: later_group_opens_bare length_create_chunks)
  from opens_bare_form [OF this] obtain s rest
    where "chunk_groups doc n ! i = (s, False) # map (\<lambda>x. (x, True)) rest"
      and "render (chunk_groups doc n ! i) = s @ concat (map (\<lambda>x. x @ ''.'') rest)"
    by blast
  with i text_nth_chunk [of i doc n]
  show "\<exists>s rest. chunk_groups doc n ! i = (s, False) # map (\<lambda>x. (x, True)) rest
         \<and> text' (create_chunks doc n ! i) = strip (s @ concat (map (\<lambda>x. x @ ''.'') rest))"
    by auto
next
  assume ne: "0 < length (create_chunks doc n)"
  then show dotted: "list_all snd (chunk_groups doc n ! 0)"
    by (simp add: first_group_dotted length_create_chunks)
  from ne text_nth_chunk [of 0 doc n] render_dotted [OF dotted]
  show "text' (create_chunks doc n ! 0)
      = strip (concat (map (\<lambda>x. x @ ''.'') (map fst (chunk_groups doc n ! 0))))"
    by simp
qed

text \<open>
  With \<open>chunk_size = 5\<close>, \<^verbatim>\<open>"fg"\<close> overflows and opens the second chunk bare; \<^verbatim>\<open>"hi"\<close> joins it
  with its period: the chunk reads \<^verbatim>\<open>"fghi."\<close>.
\<close>

theorem opening_sentence_bare_witness:
  "(0::nat) < 1 \<and> 1 < length (create_chunks ''abcde.fg.hi'' 5)
   \<and> chunk_groups ''abcde.fg.hi'' 5 = [[(''abcde'', True)], [(''fg'', False), (''hi'', True)]]
   \<and> (\<exists>s rest. chunk_groups ''abcde.fg.hi'' 5 ! 1 = (s, False) # map (\<lambda>x. (x, True)) rest
         \<and> text' (create_chunks ''abcde.fg.hi'' 5 ! 1) = strip (s @ concat (map (\<lambda>x. x @ ''.'') rest)))
   \<and> text' (create_chunks ''abcde.fg.hi'' 5 ! 1) = ''fghi.''
   \<and> text' (create_chunks ''abcde.fg.hi'' 5 ! 0) = ''abcde.''"
proof -
  have len: "(0::nat) < 1 \<and> 1 < length (create_chunks ''abcde.fg.hi'' 5)" by code_simp
  have groups: "chunk_groups ''abcde.fg.hi'' 5
      = [[(''abcde'', True)], [(''fg'', False), (''hi'', True)]]"
    by code_simp
  have texts: "text' (create_chunks ''abcde.fg.hi'' 5 ! 1) = ''fghi.''
      \<and> text' (create_chunks ''abcde.fg.hi'' 5 ! 0) = ''abcde.''"
    by code_simp
  from opening_sentence_bare [of "''abcde.fg.hi''" 5] len
  have "\<exists>s rest. chunk_groups ''abcde.fg.hi'' 5 ! 1 = (s, False) # map (\<lambda>x. (x, True)) rest
         \<and> text' (create_chunks ''abcde.fg.hi'' 5 ! 1) = strip (s @ concat (map (\<lambda>x. x @ ''.'') rest))"
    by blast
  with len groups texts show ?thesis by blast
qed

section \<open>The scorer\<close>

lemma fold_count_sum:
  "fold (\<lambda>word score. score + f word) ws (a::nat) = a + sum_list (map f ws)"
  by (induction ws arbitrary: a) simp_all

lemma fold_bonus_filter:
  "fold (\<lambda>term score. if P term then score + 5 else score) ts (a::nat)
     = a + 5 * length (filter P ts)"
  by (induction ts arbitrary: a) simp_all

text \<open>The two loops of the body, as sums over the lists they run through.\<close>

lemma chunk_score_lists:
  "chunk_score q c =
     sum_list (map (str_count (lower (text' c))) (query_words q))
     + 5 * length (filter (\<lambda>term. contains (lower (text' c)) term \<and> contains (lower q) term)
                     medical_terms)"
  unfolding chunk_score_def Let_def fold_count_sum fold_bonus_filter by simp

lemma distinct_medical_terms: "distinct medical_terms"
  by (simp add: medical_terms_def)

lemma card_matching_terms:
  "card {t \<in> set medical_terms. P t} = length (filter P medical_terms)"
proof -
  have "{t \<in> set medical_terms. P t} = set (filter P medical_terms)" by auto
  moreover have "distinct (filter P medical_terms)"
    using distinct_medical_terms by simp
  ultimately show ?thesis using distinct_card [of "filter P medical_terms"] by simp
qed

lemma chunk_score_zero_iff:
  "chunk_score q c = 0 \<longleftrightarrow>
     (\<forall>w \<in> set (split_ws (lower q)). \<not> contains (lower (text' c)) w)
     \<and> (\<forall>t \<in> set medical_terms. \<not> (contains (lower (text' c)) t \<and> contains (lower q) t))"
proof -
  have "sum_list (map (str_count (lower (text' c))) (query_words q)) = 0
      \<longleftrightarrow> (\<forall>w \<in> set (split_ws (lower q)). \<not> contains (lower (text' c)) w)"
    by (simp add: query_words_def str_count_zero)
  moreover have "length (filter (\<lambda>term. contains (lower (text' c)) term \<and> contains (lower q) term)
        medical_terms) = 0
      \<longleftrightarrow> (\<forall>t \<in> set medical_terms. \<not> (contains (lower (text' c)) t \<and> contains (lower q) t))"
    by (simp add: filter_empty_conv)
  ultimately show ?thesis
    unfolding chunk_score_lists by simp
qed

lemma score_loop_eq:
  "score_loop q chunks acc = acc @ map (scored q) (filter (\<lambda>c. 0 < chunk_score q c) chunks)"
  by (induction chunks arbitrary: acc) simp_all

lemma score_scored [simp]: "score (scored q c) = chunk_score q c"
  by (simp add: scored_def)

lemma slice_to_prefix: "prefix (slice_to stop xs) xs"
  by (simp add: slice_to_def take_is_prefix)

lemma set_slice_to: "set (slice_to stop xs) \<subseteq> set xs"
  by (auto simp: slice_to_def dest: in_set_takeD)

lemma set_search_keywords:
  "set (search_keywords chunks q m) \<subseteq> scored q ` {c \<in> set chunks. 0 < chunk_score q c}"
proof -
  have "set (search_keywords chunks q m) \<subseteq> set (score_loop q chunks [])"
    unfolding search_keywords_def using set_slice_to [of m] by fastforce
  then show ?thesis by (auto simp: score_loop_eq)
qed

lemma sorted_desc_sort_key:
  "sorted_wrt (\<lambda>a b. score b \<le> score a) (sort_key (\<lambda>x. - int (score x)) xs)"
proof -
  have "sorted (map (\<lambda>x. - int (score x)) (sort_key (\<lambda>x. - int (score x)) xs))"
    by (rule sorted_sort_key)
  then show ?thesis by (simp add: sorted_map)
qed

lemma sorted_wrt_prefix: "prefix xs ys \<Longrightarrow> sorted_wrt R ys \<Longrightarrow> sorted_wrt R xs"
  by (auto simp: prefix_def sorted_wrt_append)

text \<open>The sort keeps the entries of one score in the order of their chunks.\<close>

lemma equal_score_order:
  "filter (\<lambda>e. score e = k) (sort_key (\<lambda>x. - int (score x)) (score_loop q chunks []))
     = (if k = 0 then [] else map (scored q) (filter (\<lambda>c. chunk_score q c = k) chunks))"
proof -
  have "filter (\<lambda>e. score e = k) (sort_key (\<lambda>x. - int (score x)) (score_loop q chunks []))
      = filter (\<lambda>e. - int (score e) = - int k)
          (sort_key (\<lambda>x. - int (score x)) (score_loop q chunks []))"
    by simp
  also have "\<dots> = filter (\<lambda>e. - int (score e) = - int k) (score_loop q chunks [])"
    by (rule sort_key_stable)
  also have "\<dots> = map (scored q) (filter (\<lambda>c. chunk_score q c = k \<and> 0 < chunk_score q c) chunks)"
    by (simp add: score_loop_eq filter_map comp_def conj_commute)
  also have "\<dots> = (if k = 0 then [] else map (scored q) (filter (\<lambda>c. chunk_score q c = k) chunks))"
  proof (cases "k = 0")
    case True
    then show ?thesis by (auto simp: filter_empty_conv)
  next
    case False
    then have "(\<lambda>c. chunk_score q c = k \<and> 0 < chunk_score q c) = (\<lambda>c. chunk_score q c = k)"
      by auto
    with False show ?thesis by simp
  qed
  finally show ?thesis .
qed

text \<open>
  C1. The score of a chunk for a query is the sum, over the set of the lower-cased query's
  whitespace-separated words, of the non-overlapping occurrence count of the word in the
  lower-cased chunk text, plus 5 for each of the eight medical terms that is a substring of
  both the lower-cased chunk text and the lower-cased query; this is the score stored in the
  chunk's entry. The sum runs over a set, so two queries with the same set of words and the
  same matching terms score alike: a repeated word adds nothing.
\<close>

theorem chunk_score_formula:
  "chunk_score q c =
     (\<Sum>word \<in> set (split_ws (lower q)). str_count (lower (text' c)) word)
     + 5 * card {term \<in> set medical_terms.
                 contains (lower (text' c)) term \<and> contains (lower q) term}
   \<and> score (scored q c) = chunk_score q c
   \<and> (set (split_ws (lower q')) = set (split_ws (lower q))
        \<and> (\<forall>term \<in> set medical_terms. contains (lower q') term = contains (lower q) term)
      \<longrightarrow> chunk_score q' c = chunk_score q c)"
proof -
  have formula: "chunk_score p c =
     (\<Sum>word \<in> set (split_ws (lower p)). str_count (lower (text' c)) word)
     + 5 * card {term \<in> set medical_terms.
                 contains (lower (text' c)) term \<and> contains (lower p) term}" for p
  proof -
    have "sum_list (map (str_count (lower (text' c))) (query_words p))
        = (\<Sum>word \<in> set (split_ws (lower p)). str_count (lower (text' c)) word)"
      unfolding query_words_def by (simp add: sum_list_distinct_conv_sum_set)
    then show ?thesis
      unfolding chunk_score_lists card_matching_terms by simp
  qed
  have same: "chunk_score q' c = chunk_score q c"
    if words: "set (split_ws (lower q')) = set (split_ws (lower q))"
      and terms: "\<forall>term \<in> set medical_terms. contains (lower q') term = contains (lower q) term"
  proof -
    have "{term \<in> set medical_terms. contains (lower (text' c)) term \<and> contains (lower q') term}
        = {term \<in> set medical_terms. contains (lower (text' c)) term \<and> contains (lower q) term}"
      using terms by auto
    then show ?thesis unfolding formula [of q'] formula [of q] words by simp
  qed
  from formula [of q] same show ?thesis by simp
qed

text \<open>
  The word \<^verbatim>\<open>shock\<close> three times, in two spellings, scores as once: one occurrence and one
  bonus.
\<close>

theorem chunk_score_formula_witness:
  "set (split_ws (lower ''shock SHOCK shock'')) = set (split_ws (lower ''shock''))
   \<and> chunk_score ''shock SHOCK shock''
        \<lparr>text' = ''Treat for shock'', chunk_id = 0, page_info = ''Final chunk''\<rparr>
     = chunk_score ''shock'' \<lparr>text' = ''Treat for shock'', chunk_id = 0, page_info = ''Final chunk''\<rparr>
   \<and> chunk_score ''shock'' \<lparr>text' = ''Treat for shock'', chunk_id = 0, page_info = ''Final chunk''\<rparr>
     = 6"
proof -
  have words: "set (split_ws (lower ''shock SHOCK shock'')) = set (split_ws (lower ''shock''))"
    by code_simp
  have terms: "\<forall>term \<in> set medical_terms.
      contains (lower ''shock SHOCK shock'') term = contains (lower ''shock'') term"
    by code_simp
  have six: "chunk_score ''shock''
      \<lparr>text' = ''Treat for shock'', chunk_id = 0, page_info = ''Final chunk''\<rparr> = 6"
    by code_simp
  from chunk_score_formula [of "''shock''"
      "\<lparr>text' = ''Treat for shock'', chunk_id = 0, page_info = ''Final chunk''\<rparr>"
      "''shock SHOCK shock''"] words terms
  have "chunk_score ''shock SHOCK shock''
        \<lparr>text' = ''Treat for shock'', chunk_id = 0, page_info = ''Final chunk''\<rparr>
     = chunk_score ''shock'' \<lparr>text' = ''Treat for shock'', chunk_id = 0, page_info = ''Final chunk''\<rparr>"
    by blast
  with words six show ?thesis by blast
qed

text \<open>
  C6. The result of \<open>search_keywords\<close> is sorted by score, descending; for every score, its
  entries with that score are the first ones, in the order of the chunk sequence, of the
  chunks with that score; and for a \<open>max_results\<close> that is not negative (the default is 5) it
  has at most \<open>max_results\<close> entries.
\<close>

theorem search_keywords_sorted_stable_capped:
  "sorted_wrt (\<lambda>a b. score b \<le> score a) (search_keywords chunks q max_results)
   \<and> (\<forall>k. prefix (filter (\<lambda>e. score e = k) (search_keywords chunks q max_results))
              (map (scored q) (filter (\<lambda>c. chunk_score q c = k) chunks)))
   \<and> (0 \<le> max_results \<longrightarrow> int (length (search_keywords chunks q max_results)) \<le> max_results)"
proof (intro conjI allI impI)
  show "sorted_wrt (\<lambda>a b. score b \<le> score a) (search_keywords chunks q max_results)"
    unfolding search_keywords_def
    by (rule sorted_wrt_prefix [OF slice_to_prefix sorted_desc_sort_key])
next
  fix k
  have "prefix (filter (\<lambda>e. score e = k) (search_keywords chunks q max_results))
          (filter (\<lambda>e. score e = k) (sort_key (\<lambda>x. - int (score x)) (score_loop q chunks [])))"
    unfolding search_keywords_def by (rule filter_mono_prefix [OF slice_to_prefix])
  then show "prefix (filter (\<lambda>e. score e = k) (search_keywords chunks q max_results))
          (map (scored q) (filter (\<lambda>c. chunk_score q c = k) chunks))"
    unfolding equal_score_order
    by (cases "k = 0") simp_all
next
  assume "0 \<le> max_results"
  then show "int (length (search_keywords chunks q max_results)) \<le> max_results"
    by (simp add: search_keywords_def slice_to_def)
qed

text \<open>
  Three chunks, two of them with score 6 for \<^verbatim>\<open>shock\<close>: with \<open>max_results = 1\<close> the result is
  the earlier one.
\<close>

theorem search_keywords_sorted_stable_capped_witness:
  "(0::int) \<le> 1
   \<and> search_keywords
        [\<lparr>text' = ''Treat for shock'', chunk_id = 0, page_info = ''Unknown page''\<rparr>,
         \<lparr>text' = ''Check the airway'', chunk_id = 1, page_info = ''Unknown page''\<rparr>,
         \<lparr>text' = ''Shock kills'', chunk_id = 2, page_info = ''Final chunk''\<rparr>] ''shock'' 1
       = [\<lparr>text' = ''Treat for shock'', chunk_id = 0, page_info = ''Unknown page'', score = 6\<rparr>]
   \<and> int (length (search_keywords
        [\<lparr>text' = ''Treat for shock'', chunk_id = 0, page_info = ''Unknown page''\<rparr>,
         \<lparr>text' = ''Check the airway'', chunk_id = 1, page_info = ''Unknown page''\<rparr>,
         \<lparr>text' = ''Shock kills'', chunk_id = 2, page_info = ''Final chunk''\<rparr>] ''shock'' 1)) \<le> 1"
proof -
  have run: "search_keywords
        [\<lparr>text' = ''Treat for shock'', chunk_id = 0, page_info = ''Unknown page''\<rparr>,
         \<lparr>text' = ''Check the airway'', chunk_id = 1, page_info = ''Unknown page''\<rparr>,
         \<lparr>text' = ''Shock kills'', chunk_id = 2, page_info = ''Final chunk''\<rparr>] ''shock'' 1
       = [\<lparr>text' = ''Treat for shock'', chunk_id = 0, page_info = ''Unknown page'', score = 6\<rparr>]"
    by code_simp
  have nonneg: "(0::int) \<le> 1" by simp
  show ?thesis
    using search_keywords_sorted_stable_capped
      [of "[\<lparr>text' = ''Treat for shock'', chunk_id = 0, page_info = ''Unknown page''\<rparr>,
         \<lparr>text' = ''Check the airway'', chunk_id = 1, page_info = ''Unknown page''\<rparr>,
         \<lparr>text' = ''Shock kills'', chunk_id = 2, page_info = ''Final chunk''\<rparr>]" "''shock''" 1]
      run nonneg
    by blast
qed

text \<open>
  C7, as the code has it. Every entry of the result is the entry of a chunk of the sequence
  and has a positive score: no chunk with score 0 is in the result. And when, in every chunk,
  no word of the lower-cased query occurs in the lower-cased text and no medical term occurs
  in both the lower-cased text and the lower-cased query, the result is empty.
\<close>

theorem search_keywords_no_zero_score:
  "(\<forall>e \<in> set (search_keywords chunks q m). 0 < score e \<and> (\<exists>c \<in> set chunks. e = scored q c))
   \<and> ((\<forall>c \<in> set chunks.
          (\<forall>w \<in> set (split_ws (lower q)). \<not> contains (lower (text' c)) w)
          \<and> (\<forall>t \<in> set medical_terms. \<not> (contains (lower (text' c)) t \<and> contains (lower q) t)))
        \<longrightarrow> search_keywords chunks q m = [])"
proof (intro conjI ballI impI)
  fix e assume "e \<in> set (search_keywords chunks q m)"
  then obtain c where "c \<in> set chunks" "0 < chunk_score q c" "e = scored q c"
    using set_search_keywords [of chunks q m] by auto
  then show "0 < score e" and "\<exists>c \<in> set chunks. e = scored q c" by auto
next
  assume none: "\<forall>c \<in> set chunks.
          (\<forall>w \<in> set (split_ws (lower q)). \<not> contains (lower (text' c)) w)
          \<and> (\<forall>t \<in> set medical_terms. \<not> (contains (lower (text' c)) t \<and> contains (lower q) t))"
  have "\<forall>c \<in> set chunks. chunk_score q c = 0"
    using none chunk_score_zero_iff by blast
  then have none_scored: "{c \<in> set chunks. 0 < chunk_score q c} = {}" by auto
  have "set (search_keywords chunks q m) \<subseteq> scored q ` {c \<in> set chunks. 0 < chunk_score q c}"
    by (rule set_search_keywords)
  then show "search_keywords chunks q m = []"
    unfolding none_scored by simp
qed

text \<open>
  The query \<^verbatim>\<open>Splint\<close> on a chunk without that word and without a shared term gives nothing;
  the query \<^verbatim>\<open>shock\<close> on a chunk with that word gives the chunk's entry, with a positive
  score.
\<close>

theorem search_keywords_no_zero_score_witness:
  "split_ws (lower ''Splint'') = [''splint'']
   \<and> \<not> contains (lower ''Apply pressure'') ''splint''
   \<and> search_keywords [\<lparr>text' = ''Apply pressure'', chunk_id = 0, page_info = ''Final chunk''\<rparr>]
        ''Splint'' 5 = []
   \<and> set (search_keywords [\<lparr>text' = ''Treat for shock'', chunk_id = 0, page_info = ''Final chunk''\<rparr>]
        ''shock'' 5)
       = {scored ''shock'' \<lparr>text' = ''Treat for shock'', chunk_id = 0, page_info = ''Final chunk''\<rparr>}
   \<and> 0 < score (scored ''shock''
        \<lparr>text' = ''Treat for shock'', chunk_id = 0, page_info = ''Final chunk''\<rparr>)"
proof -
  have words: "split_ws (lower ''Splint'') = [''splint'']" by code_simp
  have absent: "\<not> contains (lower ''Apply pressure'') ''splint''" by code_simp
  have no_term: "\<forall>t \<in> set medical_terms. \<not> contains (lower ''Splint'') t" by code_simp
  have empty: "search_keywords
      [\<lparr>text' = ''Apply pressure'', chunk_id = 0, page_info = ''Final chunk''\<rparr>] ''Splint'' 5 = []"
    using search_keywords_no_zero_score
      [of "[\<lparr>text' = ''Apply pressure'', chunk_id = 0, page_info = ''Final chunk''\<rparr>]" "''Splint''" 5]
      words absent no_term
    by simp
  have hit: "set (search_keywords
      [\<lparr>text' = ''Treat for shock'', chunk_id = 0, page_info = ''Final chunk''\<rparr>] ''shock'' 5)
       = {scored ''shock'' \<lparr>text' = ''Treat for shock'', chunk_id = 0, page_info = ''Final chunk''\<rparr>}"
    by code_simp
  have pos: "0 < score (scored ''shock''
      \<lparr>text' = ''Treat for shock'', chunk_id = 0, page_info = ''Final chunk''\<rparr>)"
    using search_keywords_no_zero_score
      [of "[\<lparr>text' = ''Treat for shock'', chunk_id = 0, page_info = ''Final chunk''\<rparr>]" "''shock''" 5]
      hit
    by simp
  from words absent empty hit pos show ?thesis by blast
qed

text \<open>
  C7 as stated fails. The only word of the query \<^verbatim>\<open>wounds\<close> does not occur in the chunk
  \<^verbatim>\<open>a wound\<close>, so the count is 0; but the term \<^verbatim>\<open>wound\<close> is a substring of the query and of the
  chunk, the bonus makes the score 5, and the chunk is returned.
\<close>

theorem search_keywords_bonus_only_counterexample:
  "split_ws (lower ''wounds'') = [''wounds'']
   \<and> \<not> contains (lower ''a wound'') ''wounds''
   \<and> search_keywords [\<lparr>text' = ''a wound'', chunk_id = 0, page_info = ''Final chunk''\<rparr>] ''wounds'' 5
       = [\<lparr>text' = ''a wound'', chunk_id = 0, page_info = ''Final chunk'', score = 5\<rparr>]"
  by code_simp

section \<open>Context assembly and the query\<close>

lemma enumerate_map_snd:
  "enumerate n (map g xs) = map (\<lambda>(i, x). (i, g x)) (enumerate n xs)"
  by (induction xs arbitrary: n) simp_all

text \<open>
  C8. The context of an empty result is the empty string. The context has at most three
  parts; part \<open>i\<close> is the source label of entry \<open>i\<close> followed by the first 600 characters of
  its text, so an entry contributes at most 600 characters of chunk text; and the context is
  the one of the first three entries with their texts cut to 600 characters: nothing else of
  the result reaches it.
\<close>

theorem build_context_top3_600:
  "build_context [] = []
   \<and> length (context_parts rs) \<le> 3
   \<and> (\<forall>i < length (context_parts rs).
         context_parts rs ! i = source_label i (rs ! i) @ take 600 (text' (rs ! i))
         \<and> length (take 600 (text' (rs ! i))) \<le> 600)
   \<and> build_context rs = build_context (map (\<lambda>r. r\<lparr>text' := take 600 (text' r)\<rparr>) (take 3 rs))"
proof (intro conjI allI impI)
  show "build_context [] = []" by (simp add: build_context_def)
  show "length (context_parts rs) \<le> 3" by (simp add: context_parts_def)
next
  fix i assume "i < length (context_parts rs)"
  then have i: "i < length (take 3 rs)" by (simp add: context_parts_def)
  then show "context_parts rs ! i = source_label i (rs ! i) @ take 600 (text' (rs ! i))"
    by (simp add: context_parts_def nth_enumerate_eq)
  show "length (take 600 (text' (rs ! i))) \<le> 600" by simp
next
  have labels: "source_label i (r\<lparr>text' := t\<rparr>) = source_label i r" for i r t
    by (simp add: source_label_def)
  have "context_parts (map (\<lambda>r. r\<lparr>text' := take 600 (text' r)\<rparr>) (take 3 rs)) = context_parts rs"
    by (simp add: context_parts_def enumerate_map_snd labels comp_def split_def)
  then show "build_context rs
      = build_context (map (\<lambda>r. r\<lparr>text' := take 600 (text' r)\<rparr>) (take 3 rs))"
    by (cases rs) (simp_all add: build_context_def)
qed

text \<open>
  Four entries, the first with a text of 601 characters: three parts, and the first part
  holds 600 of them behind its label.
\<close>

theorem build_context_top3_600_witness:
  "length (context_parts
      [\<lparr>text' = replicate 601 CHR ''a'', chunk_id = 0, page_info = ''--- Page 1 ---'', score = 9\<rparr>,
       \<lparr>text' = ''b'', chunk_id = 1, page_info = ''Unknown page'', score = 7\<rparr>,
       \<lparr>text' = ''c'', chunk_id = 2, page_info = ''Unknown page'', score = 4\<rparr>,
       \<lparr>text' = ''d'', chunk_id = 3, page_info = ''Final chunk'', score = 1\<rparr>]) = 3
   \<and> context_parts
      [\<lparr>text' = replicate 601 CHR ''a'', chunk_id = 0, page_info = ''--- Page 1 ---'', score = 9\<rparr>,
       \<lparr>text' = ''b'', chunk_id = 1, page_info = ''Unknown page'', score = 7\<rparr>,
       \<lparr>text' = ''c'', chunk_id = 2, page_info = ''Unknown page'', score = 4\<rparr>,
       \<lparr>text' = ''d'', chunk_id = 3, page_info = ''Final chunk'', score = 1\<rparr>] ! 0
     = ''[Source 1 - Page 1 ---]'' @ backslash_n @ replicate 600 CHR ''a''"
proof -
  let ?rs = "[\<lparr>text' = replicate 601 CHR ''a'', chunk_id = 0, page_info = ''--- Page 1 ---'', score = 9\<rparr>,
       \<lparr>text' = ''b'', chunk_id = 1, page_info = ''Unknown page'', score = 7\<rparr>,
       \<lparr>text' = ''c'', chunk_id = 2, page_info = ''Unknown page'', score = 4\<rparr>,
       \<lparr>text' = ''d'', chunk_id = 3, page_info = ''Final chunk'', score = 1\<rparr>]"
  have len: "length (context_parts ?rs) = 3" by (simp add: context_parts_def)
  have label: "source_label 0 (?rs ! 0) = ''[Source 1 - Page 1 ---]'' @ backslash_n"
    by code_simp
  from build_context_top3_600 [of ?rs] len
  have "context_parts ?rs ! 0 = source_label 0 (?rs ! 0) @ take 600 (text' (?rs ! 0))"
    by simp
  then have "context_parts ?rs ! 0 = ''[Source 1 - Page 1 ---]'' @ backslash_n @ replicate 600 CHR ''a''"
    unfolding label by simp
  with len show ?thesis by blast
qed

subsection \<open>The runs of \<open>query\<close>\<close>

lemma step_simps [simp]:
  "step e (events, Some raised) = (events, Some raised)"
  "step e (events, None) = (events @ [e], None)"
  by (simp_all add: step_def)

lemma console_print_simps [simp]:
  "console_print markup_ok m (events, Some raised) = (events, Some raised)"
  "console_print markup_ok m (events, None)
     = (if markup_ok m then (events @ [Print m], None) else (events, Some MarkupError))"
  by (simp_all add: console_print_def)

lemma print_panel_simps [simp]:
  "print_panel markup_ok body title border_style (events, Some raised) = (events, Some raised)"
  "print_panel markup_ok body title border_style (events, None)
     = (if markup_ok body then (events @ [Show_panel body title border_style], None)
        else (events, Some MarkupError))"
  by (simp_all add: print_panel_def)

lemma fold_console_print_raised [simp]:
  "fold (console_print markup_ok) ms (events, Some raised) = (events, Some raised)"
  by (induction ms) simp_all

text \<open>A step only adds events.\<close>

lemma console_print_grows: "set (fst r) \<subseteq> set (fst (console_print markup_ok m r))"
  by (cases r; cases "snd r") auto

lemma print_panel_grows: "set (fst r) \<subseteq> set (fst (print_panel markup_ok body title border_style r))"
  by (cases r; cases "snd r") auto

lemma fold_console_print_grows: "set (fst r) \<subseteq> set (fst (fold (console_print markup_ok) ms r))"
proof (induction ms arbitrary: r)
  case Nil
  then show ?case by simp
next
  case (Cons m ms)
  have "set (fst r) \<subseteq> set (fst (console_print markup_ok m r))" by (rule console_print_grows)
  also have "\<dots> \<subseteq> set (fst (fold (console_print markup_ok) ms (console_print markup_ok m r)))"
    by (rule Cons.IH)
  finally show ?case by simp
qed

lemma same_retrieval_step: "same_retrieval r r' \<Longrightarrow> same_retrieval (step e r) (step e r')"
  by (cases r; cases r'; cases "snd r") (auto simp: same_retrieval_def)

lemma same_retrieval_print:
  "same_retrieval r r' \<Longrightarrow> same_retrieval (console_print markup_ok m r) (console_print markup_ok m r')"
  by (cases r; cases r'; cases "snd r") (auto simp: same_retrieval_def)

lemma same_retrieval_panel:
  "same_retrieval r r' \<Longrightarrow>
     same_retrieval (print_panel markup_ok body title border_style r)
       (print_panel markup_ok body title' border_style' r')"
  by (cases r; cases r'; cases "snd r") (auto simp: same_retrieval_def)

lemma same_retrieval_fold:
  "same_retrieval r r' \<Longrightarrow>
     same_retrieval (fold (console_print markup_ok) ms r) (fold (console_print markup_ok) ms r')"
  by (induction ms arbitrary: r r') (simp_all add: same_retrieval_print)

lemma same_retrieval_query_lines:
  "markup_ok m \<Longrightarrow> markup_ok m' \<Longrightarrow>
     same_retrieval (console_print markup_ok m ([], None)) (console_print markup_ok m' ([], None))"
  by (simp add: same_retrieval_def)

lemma finish_same:
  "same_retrieval r r' \<Longrightarrow>
     snd (case r of (events, None) \<Rightarrow> (events, Inr response) | (events, Some raised) \<Rightarrow> (events, Inl raised))
       = snd (case r' of (events, None) \<Rightarrow> (events, Inr response) | (events, Some raised) \<Rightarrow> (events, Inl raised))
     \<and> filter is_retrieval (fst (case r of (events, None) \<Rightarrow> (events, Inr response) | (events, Some raised) \<Rightarrow> (events, Inl raised)))
       = filter is_retrieval (fst (case r' of (events, None) \<Rightarrow> (events, Inr response) | (events, Some raised) \<Rightarrow> (events, Inl raised)))"
  by (cases r; cases r'; cases "snd r") (auto simp: same_retrieval_def)

lemma query_agree:
  assumes red: "markup_ok (query_line ''red'' question)"
    and yellow: "markup_ok (query_line ''yellow'' question)"
  shows "snd (query markup_ok chunks generate question True)
           = snd (query markup_ok chunks generate question False)
         \<and> filter is_retrieval (fst (query markup_ok chunks generate question True))
           = filter is_retrieval (fst (query markup_ok chunks generate question False))"
proof -
  let ?results = "search_keywords chunks question 5"
  let ?prompt = "full_prompt question (build_context ?results)"
  let ?sources = "map (\<lambda>(i, result). source_line i result) (enumerate 0 (take 3 ?results))"
  define before :: "run \<Rightarrow> run" where "before = (\<lambda>r1.
     step (Print (backslash_n @ replicate 60 CHR ''=''))
       (step (Post ?prompt)
         (step (Print ''Generating medical guidance...'')
           (if ?results = []
            then step (Print ''[yellow]No relevant handbook content found[/yellow]'')
                   (step (Search ?results) (step (Print ''Searching TCCC handbook...'') r1))
            else step (Search ?results) (step (Print ''Searching TCCC handbook...'') r1)))))"
  define after :: "run \<Rightarrow> run" where "after = (\<lambda>r8.
     if ?results = [] then r8
     else fold (console_print markup_ok) ?sources
            (step (Print (backslash_n @ ''[dim]Sources:[/dim]'')) r8))"
  define finish :: "run \<Rightarrow> event list \<times> (error + string)" where "finish = (\<lambda>r9.
     case r9 of (events, None) \<Rightarrow> (events, Inr (generate ?prompt))
              | (events, Some raised) \<Rightarrow> (events, Inl raised))"
  let ?urgent = "after (print_panel markup_ok (generate ?prompt) ''URGENT MEDICAL GUIDANCE'' ''red''
      (before (console_print markup_ok (query_line ''red'' question) ([], None))))"
  let ?routine = "after (print_panel markup_ok (generate ?prompt) ''TCCC Guidance'' ''green''
      (before (console_print markup_ok (query_line ''yellow'' question) ([], None))))"
  have run_urgent: "query markup_ok chunks generate question True = finish ?urgent"
    by (simp only: query_def Let_def before_def after_def finish_def if_True)
  have run_routine: "query markup_ok chunks generate question False = finish ?routine"
    by (simp only: query_def Let_def before_def after_def finish_def if_False)
  have keep_before: "same_retrieval (before r) (before r')" if "same_retrieval r r'" for r r'
    unfolding before_def using that by (auto intro!: same_retrieval_step)
  have keep_after: "same_retrieval (after r) (after r')" if "same_retrieval r r'" for r r'
    unfolding after_def using that by (auto intro!: same_retrieval_fold same_retrieval_step)
  have "same_retrieval (console_print markup_ok (query_line ''red'' question) ([], None))
      (console_print markup_ok (query_line ''yellow'' question) ([], None))"
    using red yellow by (rule same_retrieval_query_lines)
  then have "same_retrieval ?urgent ?routine"
    by (intro keep_after same_retrieval_panel keep_before)
  then show ?thesis
    unfolding run_urgent run_routine finish_def by (rule finish_same)
qed

lemma query_rejected:
  assumes "\<not> markup_ok (query_line (if urgent then ''red'' else ''yellow'') question)"
  shows "query markup_ok chunks generate question urgent = ([], Inl MarkupError)"
  using assms by (cases urgent) (simp_all add: query_def Let_def)

lemma query_accepted_retrieves:
  assumes "markup_ok (query_line (if urgent then ''red'' else ''yellow'') question)"
  shows "Search (search_keywords chunks question 5)
           \<in> set (fst (query markup_ok chunks generate question urgent))
         \<and> Post (full_prompt question (build_context (search_keywords chunks question 5)))
           \<in> set (fst (query markup_ok chunks generate question urgent))"
proof -
  let ?results = "search_keywords chunks question 5"
  let ?prompt = "full_prompt question (build_context ?results)"
  let ?line = "query_line (if urgent then ''red'' else ''yellow'') question"
  define r7 where "r7 = step (Print (backslash_n @ replicate 60 CHR ''=''))
     (step (Post ?prompt)
       (step (Print ''Generating medical guidance...'')
         (if ?results = []
          then step (Print ''[yellow]No relevant handbook content found[/yellow]'')
                 (step (Search ?results) (step (Print ''Searching TCCC handbook...'')
                   (console_print markup_ok ?line ([], None))))
          else step (Search ?results) (step (Print ''Searching TCCC handbook...'')
                   (console_print markup_ok ?line ([], None))))))"
  define r8 where "r8 = (if urgent
      then print_panel markup_ok (generate ?prompt) ''URGENT MEDICAL GUIDANCE'' ''red'' r7
      else print_panel markup_ok (generate ?prompt) ''TCCC Guidance'' ''green'' r7)"
  define r9 where "r9 = (if ?results = [] then r8
      else fold (console_print markup_ok)
             (map (\<lambda>(i, result). source_line i result) (enumerate 0 (take 3 ?results)))
             (step (Print (backslash_n @ ''[dim]Sources:[/dim]'')) r8))"
  have in7: "Search ?results \<in> set (fst r7) \<and> Post ?prompt \<in> set (fst r7)"
    using assms by (simp add: r7_def)
  have "set (fst r7) \<subseteq> set (fst r8)"
    unfolding r8_def using print_panel_grows by simp
  moreover have "set (fst r8) \<subseteq> set (fst r9)"
  proof (cases "?results = []")
    case True
    then show ?thesis by (simp add: r9_def)
  next
    case False
    have "set (fst r8) \<subseteq> set (fst (step (Print (backslash_n @ ''[dim]Sources:[/dim]'')) r8))"
      by (cases r8; cases "snd r8") auto
    also have "\<dots> \<subseteq> set (fst r9)"
      using False unfolding r9_def by (simp add: fold_console_print_grows)
    finally show ?thesis .
  qed
  ultimately have in9: "Search ?results \<in> set (fst r9) \<and> Post ?prompt \<in> set (fst r9)"
    using in7 by blast
  have "fst (query markup_ok chunks generate question urgent) = fst r9"
    unfolding query_def Let_def r9_def r8_def r7_def
    by (simp split: prod.splits option.splits)
  with in9 show ?thesis by simp
qed

text \<open>
  C9. The code does not keep the claim. The question is spliced, unescaped, into the markup
  of the query line, between tags named by \<open>urgency_color\<close>, and that line is printed before
  the search. For every console check: when the red line of a question is accepted and its
  yellow line is rejected, the run without \<open>urgent\<close> ends in \<^verbatim>\<open>MarkupError\<close> with nothing done,
  and the run with \<open>urgent\<close> searches and posts its prompt to the backend. When both lines are
  accepted, the two runs have the same retrieval events (the search result and the prompt)
  and the same outcome: there \<open>urgent\<close> changes the printed query line and the panel only.
\<close>

theorem query_urgent_markup_divergence:
  "(markup_ok (query_line ''red'' question) \<and> \<not> markup_ok (query_line ''yellow'' question) \<longrightarrow>
      query markup_ok chunks generate question False = ([], Inl MarkupError)
      \<and> Search (search_keywords chunks question 5)
           \<in> set (fst (query markup_ok chunks generate question True))
      \<and> Post (full_prompt question (build_context (search_keywords chunks question 5)))
           \<in> set (fst (query markup_ok chunks generate question True)))
   \<and> (markup_ok (query_line ''red'' question) \<and> markup_ok (query_line ''yellow'' question) \<longrightarrow>
      snd (query markup_ok chunks generate question True)
        = snd (query markup_ok chunks generate question False)
      \<and> filter is_retrieval (fst (query markup_ok chunks generate question True))
        = filter is_retrieval (fst (query markup_ok chunks generate question False)))"
proof (intro conjI impI)
  assume lines: "markup_ok (query_line ''red'' question) \<and> \<not> markup_ok (query_line ''yellow'' question)"
  from lines show "query markup_ok chunks generate question False = ([], Inl MarkupError)"
    using query_rejected [of markup_ok False question chunks generate] by simp
  from lines show "Search (search_keywords chunks question 5)
      \<in> set (fst (query markup_ok chunks generate question True))"
    using query_accepted_retrieves [of markup_ok True question chunks generate] by simp
  from lines show "Post (full_prompt question (build_context (search_keywords chunks question 5)))
      \<in> set (fst (query markup_ok chunks generate question True))"
    using query_accepted_retrieves [of markup_ok True question chunks generate] by simp
next
  assume lines: "markup_ok (query_line ''red'' question) \<and> markup_ok (query_line ''yellow'' question)"
  then show "snd (query markup_ok chunks generate question True)
      = snd (query markup_ok chunks generate question False)"
    using query_agree [of markup_ok question chunks generate] by simp
  from lines show "filter is_retrieval (fst (query markup_ok chunks generate question True))
      = filter is_retrieval (fst (query markup_ok chunks generate question False))"
    using query_agree [of markup_ok question chunks generate] by simp
qed

text \<open>
  The question \<^verbatim>\<open>[/red][red] shock\<close> on one chunk, with the tag discipline as the console's
  check: in the red line every closing tag has its open tag; in the yellow line \<^verbatim>\<open>[/red]\<close>
  closes nothing. The run without \<open>urgent\<close> raises before the search; the run with \<open>urgent\<close>
  finds the chunk, posts the prompt and returns the backend's answer. The question
  \<^verbatim>\<open>shock\<close> is accepted in both colours, and its two runs retrieve the same.
\<close>

theorem query_urgent_markup_divergence_witness:
  "tags_balanced (query_line ''red'' ''[/red][red] shock'')
   \<and> \<not> tags_balanced (query_line ''yellow'' ''[/red][red] shock'')
   \<and> query tags_balanced [\<lparr>text' = ''Treat for shock'', chunk_id = 0, page_info = ''Final chunk''\<rparr>]
        (\<lambda>prompt. ''Apply pressure'') ''[/red][red] shock'' False
       = ([], Inl MarkupError)
   \<and> Search [\<lparr>text' = ''Treat for shock'', chunk_id = 0, page_info = ''Final chunk'', score = 6\<rparr>]
       \<in> set (fst (query tags_balanced
            [\<lparr>text' = ''Treat for shock'', chunk_id = 0, page_info = ''Final chunk''\<rparr>]
            (\<lambda>prompt. ''Apply pressure'') ''[/red][red] shock'' True))
   \<and> snd (query tags_balanced [\<lparr>text' = ''Treat for shock'', chunk_id = 0, page_info = ''Final chunk''\<rparr>]
        (\<lambda>prompt. ''Apply pressure'') ''[/red][red] shock'' True)
       = Inr ''Apply pressure''
   \<and> tags_balanced (query_line ''red'' ''shock'') \<and> tags_balanced (query_line ''yellow'' ''shock'')
   \<and> filter is_retrieval (fst (query tags_balanced
          [\<lparr>text' = ''Treat for shock'', chunk_id = 0, page_info = ''Final chunk''\<rparr>]
          (\<lambda>prompt. ''Apply pressure'') ''shock'' True))
       = filter is_retrieval (fst (query tags_balanced
          [\<lparr>text' = ''Treat for shock'', chunk_id = 0, page_info = ''Final chunk''\<rparr>]
          (\<lambda>prompt. ''Apply pressure'') ''shock'' False))"
proof -
  let ?chunks = "[\<lparr>text' = ''Treat for shock'', chunk_id = 0, page_info = ''Final chunk''\<rparr>]"
  let ?generate = "\<lambda>prompt::string. ''Apply pressure''"
  have red: "tags_balanced (query_line ''red'' ''[/red][red] shock'')" by code_simp
  have yellow: "\<not> tags_balanced (query_line ''yellow'' ''[/red][red] shock'')" by code_simp
  have found: "search_keywords ?chunks ''[/red][red] shock'' 5
      = [\<lparr>text' = ''Treat for shock'', chunk_id = 0, page_info = ''Final chunk'', score = 6\<rparr>]"
    by code_simp
  have answer: "snd (query tags_balanced ?chunks ?generate ''[/red][red] shock'' True)
      = Inr ''Apply pressure''"
    by code_simp
  have plain: "tags_balanced (query_line ''red'' ''shock'') \<and> tags_balanced (query_line ''yellow'' ''shock'')"
    by code_simp
  from query_urgent_markup_divergence [of tags_balanced "''[/red][red] shock''" ?chunks ?generate]
    red yellow
  have "query tags_balanced ?chunks ?generate ''[/red][red] shock'' False = ([], Inl MarkupError)
      \<and> Search (search_keywords ?chunks ''[/red][red] shock'' 5)
           \<in> set (fst (query tags_balanced ?chunks ?generate ''[/red][red] shock'' True))"
    by blast
  moreover from query_urgent_markup_divergence [of tags_balanced "''shock''" ?chunks ?generate] plain
  have "filter is_retrieval (fst (query tags_balanced ?chunks ?generate ''shock'' True))
      = filter is_retrieval (fst (query tags_balanced ?chunks ?generate ''shock'' False))"
    by blast
  ultimately show ?thesis
    using red yellow answer plain unfolding found by blast
qed

end
